theory Spec2Isabelle
  imports Main "HOL-Library.Sublist" "HOL-Library.Multiset"
begin

section \<open>Strings and paths\<close>

text \<open>
  Python strings are modelled as \<open>string\<close> (lists of characters). The helpers below are
  the string methods the program calls: \<open>str.startswith\<close>, the \<open>in\<close> test on
  strings, \<open>str.split\<close> with a separator, \<open>str.strip\<close> and \<open>str.lower\<close>.
\<close>

definition startswith :: "string \<Rightarrow> string \<Rightarrow> bool" where
  "startswith s p = (take (length p) s = p)"

definition endswith :: "string \<Rightarrow> string \<Rightarrow> bool" where
  "endswith s p = (length p \<le> length s \<and> drop (length s - length p) s = p)"

text \<open>\<open>needle in s\<close>: \<open>needle\<close> occurs in \<open>s\<close> as a contiguous substring.\<close>

fun py_in :: "string \<Rightarrow> string \<Rightarrow> bool" where
  "py_in needle [] = (needle = [])"
| "py_in needle (c # cs) = (startswith (c # cs) needle \<or> py_in needle cs)"

text \<open>
  \<open>s.split(sep)\<close>: the pieces of \<open>s\<close> between the occurrences of \<open>sep\<close>, found from
  the left without overlap. Python raises \<open>ValueError\<close> for an empty separator; the
  program only splits at the literals \<open>"\\n"\<close>, \<open>"Color:"\<close> and \<open>"/"\<close>, and here an empty
  separator never matches.
\<close>

function py_split :: "string \<Rightarrow> string \<Rightarrow> string list" where
  "py_split sep [] = [[]]"
| "py_split sep (c # cs) =
     (if sep \<noteq> [] \<and> startswith (c # cs) sep
      then [] # py_split sep (drop (length sep) (c # cs))
      else (case py_split sep cs of
              [] \<Rightarrow> [[c]]
            | p # ps \<Rightarrow> (c # p) # ps))"
  by pat_completeness auto
termination
  by (relation "measure (\<lambda>(sep, s). length s)") auto

text \<open>\<open>s.split(sep, 1)\<close>: at most one split, at the first occurrence of \<open>sep\<close>.\<close>

fun py_split1 :: "string \<Rightarrow> string \<Rightarrow> string list" where
  "py_split1 sep [] = [[]]"
| "py_split1 sep (c # cs) =
     (if sep \<noteq> [] \<and> startswith (c # cs) sep
      then [[], drop (length sep) (c # cs)]
      else (case py_split1 sep cs of
              [] \<Rightarrow> [[c]]
            | p # ps \<Rightarrow> (c # p) # ps))"

text \<open>\<open>sep.join(xs)\<close>.\<close>

fun py_join :: "string \<Rightarrow> string list \<Rightarrow> string" where
  "py_join sep [] = []"
| "py_join sep [x] = x"
| "py_join sep (x # y # ys) = x @ sep @ py_join sep (y # ys)"

text \<open>
  Characters stand for the code points below 256. \<open>str.isspace\<close> holds there for the
  code points 9 to 13, 28 to 32, 133 and 160; \<open>str.lower\<close> moves the capital letters
  (65 to 90, and 192 to 222 without 215) up by 32.
\<close>

definition py_isspace :: "char \<Rightarrow> bool" where
  "py_isspace c =
     (let n = (of_char c :: nat)
      in (9 \<le> n \<and> n \<le> 13) \<or> (28 \<le> n \<and> n \<le> 32) \<or> n = 133 \<or> n = 160)"

definition py_strip :: "string \<Rightarrow> string" where
  "py_strip s = rev (dropWhile py_isspace (rev (dropWhile py_isspace s)))"

definition lower_char :: "char \<Rightarrow> char" where
  "lower_char c =
     (let n = (of_char c :: nat)
      in if (65 \<le> n \<and> n \<le> 90) \<or> (192 \<le> n \<and> n \<le> 222 \<and> n \<noteq> 215)
         then char_of (n + 32) else c)"

definition py_lower :: "string \<Rightarrow> string" where
  "py_lower s = map lower_char s"

text \<open>
  \<open>posixpath.join(a, b)\<close> for two components: an absolute \<open>b\<close> replaces \<open>a\<close>; otherwise
  \<open>b\<close> is appended, with a slash in between unless \<open>a\<close> is empty or already ends with one.
\<close>

definition os_path_join :: "string \<Rightarrow> string \<Rightarrow> string" where
  "os_path_join a b =
     (if startswith b ''/'' then b
      else if a = [] \<or> endswith a ''/'' then a @ b
      else a @ ''/'' @ b)"

text \<open>
  \<open>pathlib\<close> on POSIX. \<open>splitroot\<close> separates the leading slashes (one slash, or two
  when there are exactly two) from the rest; the parts of a path are the pieces of the
  rest between slashes, without the empty ones and the dots. \<open>str_Path p\<close> is
  \<open>str(Path(p))\<close>, so \<open>str(Path(root) / file)\<close> is \<open>str_Path (os_path_join root file)\<close>,
  and \<open>path_name p\<close> is \<open>Path(p).name\<close>.
\<close>

definition splitroot :: "string \<Rightarrow> string \<times> string" where
  "splitroot p =
     (if \<not> startswith p ''/'' then ([], p)
      else if \<not> startswith (drop 1 p) ''/'' \<or> startswith (drop 2 p) ''/'' then (''/'', drop 1 p)
      else (''//'', drop 2 p))"

definition path_anchor :: "string \<Rightarrow> string" where
  "path_anchor p = fst (splitroot p)"

definition path_parts :: "string \<Rightarrow> string list" where
  "path_parts p = filter (\<lambda>x. x \<noteq> [] \<and> x \<noteq> ''.'') (py_split ''/'' (snd (splitroot p)))"

definition format_path :: "string \<Rightarrow> string list \<Rightarrow> string" where
  "format_path anchor tail =
     (if anchor = [] \<and> tail = [] then ''.'' else anchor @ py_join ''/'' tail)"

definition str_Path :: "string \<Rightarrow> string" where
  "str_Path p = format_path (path_anchor p) (path_parts p)"

definition path_name :: "string \<Rightarrow> string" where
  "path_name p = (case path_parts p of [] \<Rightarrow> [] | x # xs \<Rightarrow> last (x # xs))"

section \<open>Exclusion rules of the scan\<close>

text \<open>
  \<open>excluded_dirs_prefixes\<close> of \<open>get_biggest_files\<close>. The last four entries are built
  from \<open>Path.home()\<close> with the operator \<open>/\<close> of \<open>pathlib\<close>; \<open>home\<close> is the home
  directory as a string, and \<open>home_sub home x\<close> is \<open>str(Path(home) / 'Library' / x)\<close>.
\<close>

definition home_sub :: "string \<Rightarrow> string \<Rightarrow> string" where
  "home_sub home x = str_Path (os_path_join (os_path_join home ''Library'') x)"

definition excluded_dirs_prefixes :: "string \<Rightarrow> string list" where
  "excluded_dirs_prefixes home =
     [''/Applications'', ''/System'', ''/Library'', ''/usr'', ''/bin'', ''/sbin'',
      ''/cores'', ''/dev'', ''/etc'', ''/net'', ''/private'', ''/tmp'', ''/var'',
      home_sub home ''Caches'',
      home_sub home ''Containers'',
      home_sub home ''Application Support'',
      home_sub home ''Group Containers'']"

text \<open>
  The test of line 126:
  \<open>any(current_dir_path.startswith(prefix) for prefix in excluded_dirs_prefixes)\<close>.
\<close>

definition should_prune :: "string list \<Rightarrow> string \<Rightarrow> bool" where
  "should_prune excluded current_dir_path =
     list_ex (\<lambda>pre. startswith current_dir_path pre) excluded"

text \<open>
  The reading of the specification, for comparison only: a rule matches a path when the
  path is the rule itself or continues it with a new path segment.
\<close>

definition segment_match :: "string \<Rightarrow> string \<Rightarrow> bool" where
  "segment_match rule p = (p = rule \<or> startswith p (rule @ ''/''))"

definition spec_should_prune :: "string list \<Rightarrow> string \<Rightarrow> bool" where
  "spec_should_prune rules p = list_ex (\<lambda>rule. segment_match rule p) rules"

section \<open>The scan\<close>

text \<open>
  The directory tree under the scan root, as \<open>os.walk\<close> sees it: the listing of a
  directory is a list of entries in the order \<open>os.scandir\<close> returns them.
  \<open>File name (Some n)\<close> is an entry that is not a directory, for which \<open>is_file()\<close> holds
  and \<open>stat().st_size\<close> is \<open>n\<close>; \<open>File name None\<close> is one for which \<open>is_file()\<close> is false or
  the access raises (the \<open>except\<close> branches skip it). \<open>Dir name listing\<close> is a
  subdirectory; a subdirectory that cannot be listed, or a symbolic link to a directory
  (\<open>followlinks=False\<close>), contributes nothing and is a \<open>Dir\<close> with an empty listing.
\<close>

datatype entry = File string "nat option" | Dir string "entry list"

text \<open>
  The dictionaries of \<open>file_list\<close>: the keys \<open>path\<close> and \<open>size\<close>, and the keys
  \<open>ai_suggestion\<close> and \<open>color_code\<close> that the analysis adds later.
\<close>

record file_info =
  path :: string
  size_bytes :: nat
  ai_suggestion :: "string option"
  color_code :: "string option"

text \<open>
  Lines 123 to 130 on the names in \<open>dirs\<close>: collect the names whose joined path starts
  with an excluded prefix, then \<open>dirs.remove\<close> each of them.
\<close>

definition dirs_to_skip :: "string list \<Rightarrow> string \<Rightarrow> string list \<Rightarrow> string list" where
  "dirs_to_skip excluded root dirs =
     filter (\<lambda>d. should_prune excluded (os_path_join root d)) dirs"

definition prune_dirs :: "string list \<Rightarrow> string \<Rightarrow> string list \<Rightarrow> string list" where
  "prune_dirs excluded root dirs = fold remove1 (dirs_to_skip excluded root dirs) dirs"

text \<open>The inner loop over \<open>files\<close> (lines 132 to 138) for one directory \<open>root\<close>.\<close>

fun scan_files :: "int \<Rightarrow> string \<Rightarrow> entry list \<Rightarrow> file_info list" where
  "scan_files min_size_mb root [] = []"
| "scan_files min_size_mb root (File file (Some sz) # es) =
     (if int sz > min_size_mb * 1024 * 1024
      then [\<lparr>path = str_Path (os_path_join root file), size_bytes = sz,
             ai_suggestion = None, color_code = None\<rparr>]
      else []) @ scan_files min_size_mb root es"
| "scan_files min_size_mb root (File file None # es) = scan_files min_size_mb root es"
| "scan_files min_size_mb root (Dir d sub # es) = scan_files min_size_mb root es"

text \<open>
  The walk, top down: the files of \<open>root\<close> first, then each subdirectory that was not
  removed from \<open>dirs\<close>, in listing order, under the root \<open>os.path.join(root, d)\<close>. The
  result is \<open>file_list\<close> in the order of its \<open>append\<close> calls.
\<close>

fun walk :: "string list \<Rightarrow> int \<Rightarrow> string \<Rightarrow> entry list \<Rightarrow> file_info list"
  and walk_dirs :: "string list \<Rightarrow> int \<Rightarrow> string \<Rightarrow> entry list \<Rightarrow> file_info list" where
  "walk excluded min_size_mb root es =
     scan_files min_size_mb root es @ walk_dirs excluded min_size_mb root es"
| "walk_dirs excluded min_size_mb root [] = []"
| "walk_dirs excluded min_size_mb root (File file st # es) =
     walk_dirs excluded min_size_mb root es"
| "walk_dirs excluded min_size_mb root (Dir d sub # es) =
     (if should_prune excluded (os_path_join root d) then []
      else walk excluded min_size_mb (os_path_join root d) sub)
     @ walk_dirs excluded min_size_mb root es"

text \<open>
  \<open>file_list.sort(key=lambda x: x['size'], reverse=True)\<close>: Python's sort is stable, also
  with \<open>reverse=True\<close>, so it is the stable sort by descending size.
\<close>

definition sort_by_size_desc :: "file_info list \<Rightarrow> file_info list" where
  "sort_by_size_desc file_list = sort_key (\<lambda>x. - int (size_bytes x)) file_list"

text \<open>The slice \<open>xs[:n]\<close>; a negative \<open>n\<close> counts from the end.\<close>

definition slice_to :: "int \<Rightarrow> 'a list \<Rightarrow> 'a list" where
  "slice_to n xs = (if 0 \<le> n then take (nat n) xs else take (length xs - nat (- n)) xs)"

definition get_biggest_files ::
  "string \<Rightarrow> entry list \<Rightarrow> string \<Rightarrow> int \<Rightarrow> int \<Rightarrow> file_info list" where
  "get_biggest_files home tree start_path num_files min_size_mb =
     slice_to num_files
       (sort_by_size_desc (walk (excluded_dirs_prefixes home) min_size_mb start_path tree))"

text \<open>
  What \<open>os.scandir\<close> can return as a name: not empty, without a slash, neither \<open>.\<close> nor
  \<open>..\<close>. A tree is well formed when all its names are.
\<close>

definition valid_name :: "string \<Rightarrow> bool" where
  "valid_name n = (n \<noteq> [] \<and> CHR ''/'' \<notin> set n \<and> n \<noteq> ''.'' \<and> n \<noteq> ''..'')"

fun valid_tree :: "entry list \<Rightarrow> bool" where
  "valid_tree [] = True"
| "valid_tree (File file st # es) = (valid_name file \<and> valid_tree es)"
| "valid_tree (Dir d sub # es) = (valid_name d \<and> valid_tree sub \<and> valid_tree es)"

section \<open>The safety suggestion\<close>

text \<open>
  What one call of \<open>get_file_safety_suggestion\<close> meets. \<open>Responds t\<close>: the call of
  \<open>generate_content\<close> returns and \<open>response.text\<close> is \<open>t\<close>. \<open>Raises e\<close>: an exception
  with text \<open>e\<close> is raised inside the \<open>try\<close> block (a network error, a timeout, a response
  without text). \<open>Escapes e\<close>: an exception leaves the function, raised outside its
  \<open>try\<close> block; it surfaces at \<open>future.result()\<close>.
\<close>

datatype oracle_outcome = Responds string | Raises string | Escapes string

text \<open>
  The two generator expressions of lines 210 to 214 over the lines of the response: the
  first line that starts with the key, then the text after the key. A line that starts
  with \<open>Color:\<close> splits into at least two pieces, so the index 1 exists
  (lemma \<open>py_split_index1\<close>).
\<close>

definition color_match :: "string \<Rightarrow> string option" where
  "color_match text_response =
     map_option (\<lambda>line. py_lower (py_strip (py_split ''Color:'' line ! 1)))
       (find (\<lambda>line. startswith line ''Color:'') (py_split [CHR 0x0A] text_response))"

definition reason_match :: "string \<Rightarrow> string option" where
  "reason_match text_response =
     map_option (\<lambda>line. py_strip (py_split1 ''Reason:'' line ! 1))
       (find (\<lambda>line. startswith line ''Reason:'') (py_split [CHR 0x0A] text_response))"

text \<open>Truth value of an optional string: \<open>None\<close> and the empty string are false.\<close>

fun truthy :: "string option \<Rightarrow> bool" where
  "truthy None = False"
| "truthy (Some s) = (s \<noteq> [])"

text \<open>
  Lines 216 to 231: the branch taken once \<open>text_response\<close>, \<open>color_match\<close> and
  \<open>reason_match\<close> are known. The result is the pair \<open>(suggestion, color_code)\<close>.
\<close>

definition parse_response :: "string \<Rightarrow> string \<times> string" where
  "parse_response text_response =
     (case (color_match text_response, reason_match text_response) of
        (Some cm, Some rm) \<Rightarrow>
          if cm \<noteq> [] \<and> rm \<noteq> [] then
            (if py_in ''red'' cm then (rm, ''red'')
             else if py_in ''orange'' cm then (rm, ''orange'')
             else if py_in ''yellow'' cm then (rm, ''yellow'')
             else if py_in ''green'' cm then (rm, ''green'')
             else (''AI output unparseable: '' @ text_response, ''orange''))
          else (''AI output format mismatch: '' @ text_response, ''orange'')
      | _ \<Rightarrow> (''AI output format mismatch: '' @ text_response, ''orange''))"

text \<open>
  \<open>get_file_safety_suggestion\<close>: \<open>Inr\<close> is the returned pair, \<open>Inl\<close> an exception that
  leaves the function.
\<close>

fun get_file_safety_suggestion :: "oracle_outcome \<Rightarrow> string + string \<times> string" where
  "get_file_safety_suggestion (Responds t) = Inr (parse_response (py_strip t))"
| "get_file_safety_suggestion (Raises e) =
     Inr (''Gemini API Error: '' @ e @ ''. Defaulting to uncertain.'', ''orange'')"
| "get_file_safety_suggestion (Escapes e) = Inl e"

text \<open>
  The reading of the specification, for comparison only: the first recognised category
  token of a text, scanning from the left and ignoring case.
\<close>

fun spec_first_token :: "string \<Rightarrow> string option" where
  "spec_first_token [] = None"
| "spec_first_token (c # cs) =
     (if startswith (py_lower (c # cs)) ''red'' then Some ''red''
      else if startswith (py_lower (c # cs)) ''orange'' then Some ''orange''
      else if startswith (py_lower (c # cs)) ''yellow'' then Some ''yellow''
      else if startswith (py_lower (c # cs)) ''green'' then Some ''green''
      else spec_first_token cs)"


section \<open>The analysis stage\<close>

text \<open>
  The submit loop (lines 356 to 367). \<open>exists p\<close> is \<open>Path(p).exists()\<close> at that moment
  and \<open>gemini p\<close> is what the call for the path \<open>p\<close> meets. An entry whose file is gone is
  skipped by \<open>continue\<close>. The result lists the futures in submission order, each with the
  entry that \<open>file_info_map\<close> holds for it and with the result it will deliver; the calls
  of \<open>get_file_safety_suggestion\<close> are exactly the entries of this list.
\<close>

fun submit_loop ::
  "(string \<Rightarrow> bool) \<Rightarrow> (string \<Rightarrow> oracle_outcome) \<Rightarrow> file_info list
     \<Rightarrow> (file_info \<times> (string + string \<times> string)) list" where
  "submit_loop exists gemini [] = []"
| "submit_loop exists gemini (fi # rest) =
     (if \<not> exists (path fi) then submit_loop exists gemini rest
      else (fi, get_file_safety_suggestion (gemini (path fi))) # submit_loop exists gemini rest)"

definition invoked_paths ::
  "(string \<Rightarrow> bool) \<Rightarrow> (string \<Rightarrow> oracle_outcome) \<Rightarrow> file_info list \<Rightarrow> string list" where
  "invoked_paths exists gemini files = map (\<lambda>fut. path (fst fut)) (submit_loop exists gemini files)"

text \<open>
  \<open>concurrent.futures.as_completed\<close> yields every future once. The order is decided by
  the run and not by the program: the futures that are already finished when the loop
  starts come first, in the iteration order of a set of future objects, and the others
  follow as they finish. The order is given here by \<open>pick\<close>: at step \<open>k\<close> the future
  yielded is the one at position \<open>pick k\<close>, modulo their number, among the futures not yet
  yielded. Every \<open>pick\<close> gives an order and every order of the futures is given by some
  \<open>pick\<close> (lemma \<open>as_completed_any_order\<close>).
\<close>

function as_completed :: "(nat \<Rightarrow> nat) \<Rightarrow> nat \<Rightarrow> 'a list \<Rightarrow> 'a list" where
  "as_completed pick k [] = []"
| "as_completed pick k (x # xs) =
     (let i = pick k mod length (x # xs)
      in (x # xs) ! i # as_completed pick (Suc k) (take i (x # xs) @ drop (Suc i) (x # xs)))"
  by pat_completeness auto
termination
  by (relation "measure (\<lambda>(pick, k, xs). length xs)") auto

text \<open>The body of the loop over the completed futures (lines 371 to 381).\<close>

fun collect_result :: "file_info \<times> (string + string \<times> string) \<Rightarrow> file_info" where
  "collect_result (original_file_info, Inr (suggestion, color)) =
     original_file_info\<lparr>ai_suggestion := Some suggestion, color_code := Some color\<rparr>"
| "collect_result (original_file_info, Inl exc) =
     original_file_info\<lparr>ai_suggestion := Some (''AI analysis failed: '' @ exc),
                         color_code := Some ''orange''\<rparr>"

text \<open>\<open>analyzed_files_temp\<close> at line 386, which becomes the new \<open>scanned_files\<close>.\<close>

definition analysis ::
  "(string \<Rightarrow> bool) \<Rightarrow> (string \<Rightarrow> oracle_outcome) \<Rightarrow> (nat \<Rightarrow> nat) \<Rightarrow> file_info list
     \<Rightarrow> file_info list" where
  "analysis exists gemini pick scanned =
     map collect_result (as_completed pick 0 (submit_loop exists gemini scanned))"

section \<open>Session state and the handlers\<close>

text \<open>
  The exceptions the trash function tells apart: \<open>FileNotFoundError\<close> and every other
  exception, each with its text.
\<close>

datatype py_exception = FileNotFoundError string | OtherError string

text \<open>
  The file system at the time of the analysis and of the trash operations: \<open>disk p\<close> is
  the size of the file at \<open>p\<close> when \<open>stat()\<close> succeeds there, and then \<open>exists()\<close> holds.
  For a path without a file \<open>exists()\<close> is false and \<open>stat_error p\<close> is the exception that
  \<open>stat()\<close> raises (\<open>FileNotFoundError\<close> for a missing file, another one for instance when
  a parent is not a directory). \<open>trash_error p\<close> is the exception that \<open>send2trash\<close> raises
  for \<open>p\<close>, if it does.
\<close>

record world =
  disk :: "string \<rightharpoonup> nat"
  stat_error :: "string \<Rightarrow> py_exception"
  trash_error :: "string \<Rightarrow> py_exception option"

definition path_exists :: "world \<Rightarrow> string \<Rightarrow> bool" where
  "path_exists w p = (disk w p \<noteq> None)"

text \<open>
  The two \<open>except\<close> branches of \<open>delete_file_to_trash\<close> (lines 250 to 253); \<open>file_path\<close> is
  a \<open>Path\<close>, printed as \<open>str_Path\<close> gives it.
\<close>

fun trash_failure :: "string \<Rightarrow> py_exception \<Rightarrow> bool \<times> string \<times> nat" where
  "trash_failure file_path (FileNotFoundError e) =
     (False, ''Error: File not found - '' @ str_Path file_path, 0)"
| "trash_failure file_path (OtherError e) =
     (False, ''Error moving '' @ [CHR 0x27] @ path_name file_path @ [CHR 0x27]
               @ '' to Trash: '' @ e, 0)"

text \<open>
  \<open>delete_file_to_trash\<close>: the triple \<open>(success, message, size)\<close> and the file system
  afterwards.
\<close>

definition delete_file_to_trash :: "world \<Rightarrow> string \<Rightarrow> (bool \<times> string \<times> nat) \<times> world" where
  "delete_file_to_trash w file_path =
     (case disk w file_path of
        None \<Rightarrow> (trash_failure file_path (stat_error w file_path), w)
      | Some sz \<Rightarrow>
          (case trash_error w file_path of
             Some exc \<Rightarrow> (trash_failure file_path exc, w)
           | None \<Rightarrow>
               ((True, ''Moved to Trash: '' @ path_name file_path, sz),
                w\<lparr>disk := (disk w)(file_path := None)\<rparr>)))"

record run_state =
  scanned_files :: "file_info list"
  scan_completed :: bool
  analysis_completed :: bool
  selected_files :: "string set"
  space_liberated :: nat

definition initial_state :: run_state where
  "initial_state = \<lparr>scanned_files = [], scan_completed = False, analysis_completed = False,
                     selected_files = {}, space_liberated = 0\<rparr>"

text \<open>
  The loop of the bulk handler (lines 432 to 446) over \<open>files_to_delete_info\<close>; it
  carries the file system, \<open>selected_files\<close>, \<open>num_deleted\<close> and \<open>total_size_deleted\<close>.
\<close>

fun bulk_loop ::
  "file_info list \<Rightarrow> world \<times> string set \<times> nat \<times> nat \<Rightarrow> world \<times> string set \<times> nat \<times> nat" where
  "bulk_loop [] acc = acc"
| "bulk_loop (file_info_to_delete # rest) (w, selected, num_deleted, total_size_deleted) =
     (let file_path_to_delete = path file_info_to_delete
      in if path_exists w file_path_to_delete then
           (case delete_file_to_trash w file_path_to_delete of
              ((True, message, deleted_size), w') \<Rightarrow>
                bulk_loop rest (w', selected - {file_path_to_delete}, num_deleted + 1,
                                total_size_deleted + deleted_size)
            | ((False, message, deleted_size), w') \<Rightarrow>
                bulk_loop rest (w', selected, num_deleted, total_size_deleted))
         else bulk_loop rest (w, selected - {file_path_to_delete}, num_deleted,
                              total_size_deleted))"

text \<open>The handler of the button \<open>Move Selected Files to Trash\<close> (lines 418 to 464).\<close>

definition bulk_delete_button :: "world \<Rightarrow> run_state \<Rightarrow> run_state \<times> world" where
  "bulk_delete_button w s =
     (if selected_files s = {} then (s, w)
      else
        (let files_to_delete_info =
               filter (\<lambda>f_info. path f_info \<in> selected_files s) (scanned_files s);
             (w', selected, num_deleted, total_size_deleted) =
               bulk_loop files_to_delete_info (w, selected_files s, 0, 0);
             s1 = s\<lparr>selected_files := selected,
                    space_liberated := space_liberated s + total_size_deleted\<rparr>
         in if num_deleted > 0
            then (s1\<lparr>scanned_files := filter (\<lambda>f. path f \<notin> selected) (scanned_files s1)\<rparr>, w')
            else (s1, w')))"

text \<open>The handler of the button \<open>Move to Trash\<close> of the entry at index \<open>i\<close> (lines 504 to 516).\<close>

definition delete_button :: "nat \<Rightarrow> world \<Rightarrow> run_state \<Rightarrow> run_state \<times> world" where
  "delete_button i w s =
     (let file_path = path (scanned_files s ! i)
      in case delete_file_to_trash w file_path of
           ((True, message, deleted_size), w') \<Rightarrow>
             (s\<lparr>space_liberated := space_liberated s + deleted_size,
                scanned_files := map snd (filter (\<lambda>(j, f). j \<noteq> i)
                                            (enumerate 0 (scanned_files s))),
                selected_files := selected_files s - {file_path}\<rparr>, w')
         | ((False, message, deleted_size), w') \<Rightarrow> (s, w'))"

text \<open>The \<open>on_change\<close> callback of a checkbox (lines 489 to 493).\<close>

definition toggle :: "string \<Rightarrow> run_state \<Rightarrow> run_state" where
  "toggle f s =
     (if f \<notin> selected_files s then s\<lparr>selected_files := insert f (selected_files s)\<rparr>
      else s\<lparr>selected_files := selected_files s - {f}\<rparr>)"

text \<open>
  One pass of the display loop (lines 467 to 478): an entry whose file is gone is taken
  out of \<open>selected_files\<close>.
\<close>

definition display_pass :: "world \<Rightarrow> run_state \<Rightarrow> run_state" where
  "display_pass w s =
     s\<lparr>selected_files :=
         fold (\<lambda>file_info sel. if path_exists w (path file_info) then sel
                               else sel - {path file_info})
              (scanned_files s) (selected_files s)\<rparr>"

text \<open>
  The inputs of the button \<open>Start Scan and AI Analysis\<close>: the configured model
  (\<open>None\<close> when \<open>gemini_model\<close> is not set), the sidebar inputs, the home directory and the
  tree under the scan path, and the order in which the analysis yields its futures.
\<close>

record scan_request =
  gemini_model :: "(string \<Rightarrow> oracle_outcome) option"
  home_dir :: string
  tree :: "entry list"
  scan_path_input :: string
  num_files_to_show :: int
  min_size_mb_filter :: int
  yield_order :: "nat \<Rightarrow> nat"

text \<open>The handler of the scan button (lines 318 to 390).\<close>

definition start_scan :: "scan_request \<Rightarrow> world \<Rightarrow> run_state \<Rightarrow> run_state" where
  "start_scan req w s =
     (case gemini_model req of
        None \<Rightarrow> s
      | Some gemini \<Rightarrow>
          (let s0 = s\<lparr>scan_completed := False, analysis_completed := False,
                      scanned_files := [], selected_files := {}, space_liberated := 0\<rparr>;
               found = get_biggest_files (home_dir req) (tree req) (scan_path_input req)
                         (num_files_to_show req) (min_size_mb_filter req);
               s1 = s0\<lparr>scanned_files := found, scan_completed := True\<rparr>
           in if found = [] then s1\<lparr>analysis_completed := True\<rparr>
              else s1\<lparr>scanned_files := analysis (path_exists w) gemini (yield_order req) found,
                       analysis_completed := True\<rparr>))"

text \<open>
  The operations of a run. The two trash buttons are only drawn when scan and analysis
  are complete and \<open>scanned_files\<close> is not empty, and the button of an entry only when
  its file exists; otherwise the event changes nothing. An event is the handler alone;
  the pass of the script that follows it (after \<open>st.rerun()\<close> or at once) is the event
  \<open>Rerun\<close>, whose only effect on the state is that of the display loop.
\<close>

datatype event =
  StartScan scan_request
| BulkDelete
| DeleteOne nat
| Toggle string
| Rerun

definition results_shown :: "run_state \<Rightarrow> bool" where
  "results_shown s = (scan_completed s \<and> analysis_completed s \<and> scanned_files s \<noteq> [])"

fun step :: "world \<Rightarrow> event \<Rightarrow> run_state \<Rightarrow> run_state \<times> world" where
  "step w (StartScan req) s = (start_scan req w s, w)"
| "step w BulkDelete s = (if results_shown s then bulk_delete_button w s else (s, w))"
| "step w (DeleteOne i) s =
     (if results_shown s \<and> i < length (scanned_files s)
         \<and> path_exists w (path (scanned_files s ! i))
      then delete_button i w s else (s, w))"
| "step w (Toggle f) s = (toggle f s, w)"
| "step w Rerun s = (if results_shown s then display_pass w s else s, w)"

text \<open>
  A run is a sequence of operations, each with the file system it meets: the file system
  changes through the trash operations and from outside.
\<close>

fun run :: "(world \<times> event) list \<Rightarrow> run_state \<Rightarrow> run_state" where
  "run [] s = s"
| "run ((w, ev) # rest) s = run rest (fst (step w ev s))"

fun is_start_scan :: "event \<Rightarrow> bool" where
  "is_start_scan (StartScan req) = True"
| "is_start_scan ev = False"

text \<open>
  A record lies under the directory \<open>root\<close> with a size above the threshold: its path is
  the path of \<open>root\<close> continued by one or more names.
\<close>

definition under_root :: "int \<Rightarrow> string \<Rightarrow> file_info \<Rightarrow> bool" where
  "under_root m root f =
     (m * 1024 * 1024 < int (size_bytes f) \<and>
      (\<exists>segs. segs \<noteq> [] \<and> list_all valid_name segs \<and>
         path f = format_path (path_anchor root) (path_parts root @ segs)))"

section \<open>Facts about the string helpers\<close>

lemma startswith_prefix: "startswith s p \<longleftrightarrow> prefix p s"
  unfolding startswith_def
  by (metis append_eq_conv_conj prefix_def prefixE)


lemma startswith_length: "startswith s p \<Longrightarrow> length p \<le> length s"
proof -
  assume "startswith s p"
  then have "length (take (length p) s) = length p" by (simp add: startswith_def)
  then show ?thesis by simp
qed

lemma segment_match_startswith: "segment_match rule p \<Longrightarrow> startswith p rule"
  by (auto simp: segment_match_def startswith_prefix dest: append_prefixD)

lemma endswith_slash: "endswith r ''/'' \<longleftrightarrow> (\<exists>q. r = q @ ''/'')"
proof
  assume "endswith r ''/''"
  then have "length r \<ge> 1" "drop (length r - 1) r = ''/''" by (simp_all add: endswith_def)
  then have "r = take (length r - 1) r @ ''/''" by (metis append_take_drop_id)
  then show "\<exists>q. r = q @ ''/''" ..
next
  assume "\<exists>q. r = q @ ''/''"
  then show "endswith r ''/''" by (auto simp: endswith_def)
qed

lemma startswith_slash: "startswith s ''/'' \<longleftrightarrow> (\<exists>t. s = CHR ''/'' # t)"
  by (cases s) (auto simp: startswith_def)

lemma startswith_Nil_slash: "\<not> startswith [] ''/''"
  by (simp add: startswith_def)

lemma valid_name_no_slash: "valid_name n \<Longrightarrow> \<not> startswith n ''/''"
  by (auto simp: valid_name_def startswith_slash)

lemma os_path_join_valid:
  "valid_name n \<Longrightarrow> os_path_join r n =
     (if r = [] \<or> endswith r ''/'' then r @ n else r @ ''/'' @ n)"
  by (simp add: os_path_join_def valid_name_no_slash)

lemma py_split_char_Cons:
  "py_split [c] (x # xs) =
     (if x = c then [] # py_split [c] xs
      else (case py_split [c] xs of [] \<Rightarrow> [[x]] | p # ps \<Rightarrow> (x # p) # ps))"
  by (simp add: startswith_def)

lemma py_split_not_Nil: "py_split sep s \<noteq> []"
  by (induction sep s rule: py_split.induct) (auto split: list.splits)

lemma py_split_char_clean: "c \<notin> set n \<Longrightarrow> py_split [c] n = [n]"
  by (induction n) (auto simp: startswith_def)

lemma py_split_char_append:
  "py_split [c] (xs @ c # ys) = py_split [c] xs @ py_split [c] ys"
proof (induction xs)
  case Nil
  show ?case by (simp add: startswith_def)
next
  case (Cons x xs)
  obtain p ps where s: "py_split [c] xs = p # ps"
    using py_split_not_Nil [of "[c]" xs] by (cases "py_split [c] xs") auto
  show ?case
  proof (cases "x = c")
    case True
    with Cons show ?thesis by (simp add: startswith_def)
  next
    case False
    have "py_split [c] ((x # xs) @ c # ys) = (x # p) # ps @ py_split [c] ys"
      using False Cons s by (simp add: py_split_char_Cons del: py_split.simps)
    moreover have "py_split [c] (x # xs) = (x # p) # ps"
      using False s by (simp add: py_split_char_Cons del: py_split.simps)
    ultimately show ?thesis by simp
  qed
qed

lemma py_split_char_no_sep: "p \<in> set (py_split [c] s) \<Longrightarrow> c \<notin> set p"
proof (induction s arbitrary: p)
  case Nil
  then show ?case by simp
next
  case (Cons x xs)
  obtain q qs where s: "py_split [c] xs = q # qs"
    using py_split_not_Nil [of "[c]" xs] by (cases "py_split [c] xs") auto
  show ?case
  proof (cases "x = c")
    case True
    with Cons.prems have "p = [] \<or> p \<in> set (py_split [c] xs)"
      by (simp add: py_split_char_Cons del: py_split.simps)
    with Cons.IH show ?thesis by auto
  next
    case False
    with Cons.prems s have "p = x # q \<or> p \<in> set qs"
      by (simp add: py_split_char_Cons del: py_split.simps)
    moreover have "c \<notin> set q" using Cons.IH [of q] s by simp
    moreover have "p \<in> set qs \<Longrightarrow> c \<notin> set p" using Cons.IH [of p] s by simp
    ultimately show ?thesis using False by auto
  qed
qed

lemma splitroot_append:
  assumes "r \<noteq> []" "\<not> endswith r ''/'' \<or> \<not> startswith s ''/''"
  shows "splitroot (r @ s) = (fst (splitroot r), snd (splitroot r) @ s)"
proof (cases r)
  case Nil
  with assms show ?thesis by simp
next
  case (Cons a r1)
  note r = this
  show ?thesis
  proof (cases r1)
    case Nil
    with r assms show ?thesis
      by (cases s) (auto simp: splitroot_def startswith_def endswith_def)
  next
    case (Cons b r2)
    note r1 = this
    show ?thesis
    proof (cases r2)
      case Nil
      with r r1 assms show ?thesis
        by (cases s) (auto simp: splitroot_def startswith_def endswith_def)
    next
      case (Cons c r3)
      with r r1 show ?thesis
        by (auto simp: splitroot_def startswith_def)
    qed
  qed
qed

lemma snd_splitroot_drop: "\<exists>k. snd (splitroot r) = drop k r"
proof -
  have "snd (splitroot r) = drop 0 r \<or> snd (splitroot r) = drop 1 r \<or> snd (splitroot r) = drop 2 r"
    by (simp add: splitroot_def)
  then show ?thesis by blast
qed

lemma rest_of_slash_ended:
  assumes "r = q @ ''/''"
  shows "snd (splitroot r) = [] \<or> (\<exists>q'. snd (splitroot r) = q' @ ''/'')"
proof -
  obtain k where k: "snd (splitroot r) = drop k r" using snd_splitroot_drop by blast
  show ?thesis
  proof (cases "k \<le> length q")
    case True
    then have "drop k r = drop k q @ ''/''" using assms by simp
    with k show ?thesis by auto
  next
    case False
    then have "drop k r = []" using assms by simp
    with k show ?thesis by simp
  qed
qed

lemma path_anchor_join:
  assumes "valid_name n"
  shows "path_anchor (os_path_join r n) = path_anchor r"
proof (cases "r = []")
  case True
  with assms show ?thesis
    by (simp add: os_path_join_valid path_anchor_def splitroot_def valid_name_no_slash
        startswith_Nil_slash)
next
  case False
  show ?thesis
  proof (cases "endswith r ''/''")
    case True
    with False assms show ?thesis
      by (simp add: os_path_join_valid path_anchor_def splitroot_append valid_name_no_slash)
  next
    case e: False
    with False assms show ?thesis
      by (simp add: os_path_join_valid path_anchor_def splitroot_append)
  qed
qed

lemma path_parts_join:
  assumes "valid_name n"
  shows "path_parts (os_path_join r n) = path_parts r @ [n]"
proof -
  from assms have n: "CHR ''/'' \<notin> set n" "n \<noteq> []" "n \<noteq> ''.''" by (simp_all add: valid_name_def)
  have sn: "py_split ''/'' n = [n]" using n(1) by (rule py_split_char_clean)
  show ?thesis
  proof (cases "r = []")
    case True
    with assms n sn show ?thesis
      by (simp add: os_path_join_valid path_parts_def splitroot_def valid_name_no_slash
          startswith_Nil_slash)
  next
    case False
    show ?thesis
    proof (cases "endswith r ''/''")
      case True
      then obtain q where q: "r = q @ ''/''" by (auto simp: endswith_slash)
      have j: "snd (splitroot (os_path_join r n)) = snd (splitroot r) @ n"
        using False True assms
        by (simp add: os_path_join_valid splitroot_append valid_name_no_slash)
      from rest_of_slash_ended [OF q] show ?thesis
      proof
        assume "snd (splitroot r) = []"
        with j sn n show ?thesis by (simp add: path_parts_def)
      next
        assume "\<exists>q'. snd (splitroot r) = q' @ ''/''"
        then obtain q' where q': "snd (splitroot r) = q' @ ''/''" ..
        have "py_split ''/'' (q' @ CHR ''/'' # n) = py_split ''/'' q' @ py_split ''/'' n"
          by (rule py_split_char_append)
        moreover have "py_split ''/'' (q' @ CHR ''/'' # []) = py_split ''/'' q' @ py_split ''/'' []"
          by (rule py_split_char_append)
        ultimately show ?thesis using j q' sn n by (simp add: path_parts_def)
      qed
    next
      case e: False
      have j: "snd (splitroot (os_path_join r n)) = snd (splitroot r) @ CHR ''/'' # n"
        using False e assms by (simp add: os_path_join_valid splitroot_append)
      have "py_split ''/'' (snd (splitroot r) @ CHR ''/'' # n) =
            py_split ''/'' (snd (splitroot r)) @ py_split ''/'' n"
        by (rule py_split_char_append)
      with j sn n show ?thesis by (simp add: path_parts_def)
    qed
  qed
qed


lemma py_split1_index1:
  assumes "sep \<noteq> []" "startswith line sep"
  shows "py_split1 sep line ! 1 = drop (length sep) line"
proof (cases line)
  case Nil
  with assms show ?thesis by (simp add: startswith_def)
next
  case (Cons c cs)
  with assms show ?thesis by simp
qed

lemma fold_remove1_keep:
  "x \<notin> set ds \<Longrightarrow> fold remove1 ds (x # xs) = x # fold remove1 ds xs"
  by (induction ds arbitrary: xs) auto

lemma fold_remove1_filter: "fold remove1 (filter P xs) xs = filter (\<lambda>x. \<not> P x) xs"
proof (induction xs)
  case Nil
  show ?case by simp
next
  case (Cons x xs)
  show ?case
  proof (cases "P x")
    case True
    with Cons show ?thesis by simp
  next
    case False
    then have "x \<notin> set (filter P xs)" by simp
    with False Cons show ?thesis by (simp add: fold_remove1_keep)
  qed
qed

lemma prune_dirs_filter:
  "prune_dirs excluded root dirs =
     filter (\<lambda>d. \<not> should_prune excluded (os_path_join root d)) dirs"
  by (simp add: prune_dirs_def dirs_to_skip_def fold_remove1_filter)

lemma py_join_snoc2:
  "py_join sep (ps @ [a, b]) = (if ps = [] then [] else py_join sep ps @ sep) @ a @ sep @ b"
proof (induction sep ps rule: py_join.induct)
  case (1 sep)
  show ?case by simp
next
  case (2 sep x)
  show ?case by simp
next
  case (3 sep x y ys)
  then show ?case by simp
qed

lemma format_path_tail:
  "format_path a (ps @ [u, v]) = (a @ (if ps = [] then [] else py_join ''/'' ps @ ''/'')) @ u @ ''/'' @ v"
  unfolding format_path_def py_join_snoc2 by simp

lemma valid_name_Library: "valid_name ''Library''"
  by (simp add: valid_name_def)

lemma home_sub_tail:
  assumes "valid_name x"
  shows "\<exists>Y. home_sub home x = Y @ ''Library/'' @ x"
proof -
  have "home_sub home x =
      format_path (path_anchor home) (path_parts home @ [''Library'', x])"
    using assms valid_name_Library
    by (simp add: home_sub_def str_Path_def path_anchor_join path_parts_join)
  then show ?thesis unfolding format_path_tail by auto
qed

lemma py_join_py_split_char: "py_join [c] (py_split [c] s) = s"
proof (induction s)
  case Nil
  show ?case by simp
next
  case (Cons x xs)
  obtain p ps where s: "py_split [c] xs = p # ps"
    using py_split_not_Nil [of "[c]" xs] by (cases "py_split [c] xs") auto
  show ?case
  proof (cases "x = c")
    case True
    have "py_split [c] (x # xs) = [] # p # ps"
      using True s by (simp add: py_split_char_Cons del: py_split.simps)
    then show ?thesis using Cons s True by simp
  next
    case False
    have "py_split [c] (x # xs) = (x # p) # ps"
      using False s by (simp add: py_split_char_Cons del: py_split.simps)
    moreover have "py_join [c] ((x # p) # ps) = x # py_join [c] (p # ps)"
      by (cases ps) simp_all
    ultimately show ?thesis using Cons s by simp
  qed
qed

lemma py_split_py_join_char:
  "ps \<noteq> [] \<Longrightarrow> \<forall>p \<in> set ps. c \<notin> set p \<Longrightarrow> py_split [c] (py_join [c] ps) = ps"
proof (induction "[c]" ps rule: py_join.induct)
  case 1
  then show ?case by simp
next
  case (2 x)
  then show ?case by (simp add: py_split_char_clean del: py_split.simps)
next
  case (3 x y ys)
  have "py_split [c] (x @ c # py_join [c] (y # ys)) =
        py_split [c] x @ py_split [c] (py_join [c] (y # ys))"
    by (rule py_split_char_append)
  with 3 show ?case by (simp add: py_split_char_clean del: py_split.simps)
qed

text \<open>The first piece of a split is the text before the leftmost occurrence of the separator.\<close>

lemma py_split_first_piece:
  assumes "sep \<noteq> []" "rest = [] \<or> prefix sep rest"
    "\<forall>j<length piece. \<not> prefix sep (drop j (piece @ rest))"
  shows "\<exists>ps. py_split sep (piece @ rest) = piece # ps"
  using assms(3)
proof (induction piece)
  case Nil
  show ?case
  proof (cases rest)
    case Nil
    then show ?thesis by simp
  next
    case (Cons c cs)
    with assms(1,2) have "startswith (c # cs) sep" by (simp add: startswith_prefix)
    with assms(1) Cons show ?thesis by simp
  qed
next
  case (Cons x piece)
  from Cons.prems have "\<not> prefix sep (drop 0 ((x # piece) @ rest))" by blast
  then have n: "\<not> startswith (x # piece @ rest) sep" by (simp add: startswith_prefix)
  have "\<forall>j<length piece. \<not> prefix sep (drop j (piece @ rest))"
  proof (intro allI impI)
    fix j assume "j < length piece"
    then have "Suc j < length (x # piece)" by simp
    with Cons.prems have "\<not> prefix sep (drop (Suc j) ((x # piece) @ rest))" by blast
    then show "\<not> prefix sep (drop j (piece @ rest))" by simp
  qed
  from Cons.IH [OF this] obtain ps where "py_split sep (piece @ rest) = piece # ps" ..
  with n show ?case by simp
qed

lemma py_split_index1_piece:
  assumes "sep \<noteq> []" "rest = [] \<or> prefix sep rest"
    "\<forall>j<length piece. \<not> prefix sep (drop j (piece @ rest))"
  shows "py_split sep (sep @ piece @ rest) ! 1 = piece"
proof -
  from py_split_first_piece [OF assms] obtain ps where
    p: "py_split sep (piece @ rest) = piece # ps" ..
  obtain c cs where sep: "sep = c # cs" using assms(1) by (cases sep) auto
  have "startswith (sep @ piece @ rest) sep" by (simp add: startswith_def)
  then have "py_split sep (sep @ piece @ rest) = [] # py_split sep (piece @ rest)"
    using assms(1) unfolding sep by simp
  with p show ?thesis by simp
qed





section \<open>The pruning decision\<close>

text \<open>
  C3 (as the specification states it): the pruning decision matches on exact path
  segments and not on string prefixes. The code tests string prefixes: with the single
  rule \<open>/Library\<close> the directory \<open>/Library2/Foo\<close> is pruned, although no path segment
  of it equals the rule.
\<close>

theorem C3_segment_counterexample:
  "should_prune [''/Library''] ''/Library2/Foo'' \<and>
   \<not> spec_should_prune [''/Library''] ''/Library2/Foo''"
  by (simp add: should_prune_def spec_should_prune_def segment_match_def startswith_def)

lemma libraries_not_excluded:
  "\<not> should_prune (excluded_dirs_prefixes home) ''/Libraries/Foo''"
proof -
  have h: "\<not> startswith ''/Libraries/Foo'' (home_sub home x)"
    if x: "valid_name x" "6 \<le> length x" for x
  proof
    assume s: "startswith ''/Libraries/Foo'' (home_sub home x)"
    from home_sub_tail [OF x(1)] obtain Y where eq: "home_sub home x = Y @ ''Library/'' @ x" ..
    from startswith_length [OF s] have "length Y + 8 + length x \<le> 14"
      by (simp add: eq)
    with x have "length Y = 0" "length x = 6" by linarith+
    then have "Y = []" "length x = 6" by simp_all
    with s eq have "take 14 ''/Libraries/Foo'' = ''Library/'' @ x"
      by (simp add: startswith_def)
    then show False by simp
  qed
  have h1: "\<not> startswith ''/Libraries/Foo'' (home_sub home ''Caches'')"
    by (rule h) (simp_all add: valid_name_def)
  have h2: "\<not> startswith ''/Libraries/Foo'' (home_sub home ''Containers'')"
    by (rule h) (simp_all add: valid_name_def)
  have h3: "\<not> startswith ''/Libraries/Foo'' (home_sub home ''Application Support'')"
    by (rule h) (simp_all add: valid_name_def)
  have h4: "\<not> startswith ''/Libraries/Foo'' (home_sub home ''Group Containers'')"
    by (rule h) (simp_all add: valid_name_def)
  show ?thesis
    using h1 h2 h3 h4
    by (simp add: should_prune_def excluded_dirs_prefixes_def startswith_def)
qed

text \<open>
  C3 (amended): the pruning decision is a string-prefix test of the directory path
  against each rule. Every path that matches a rule on exact path segments is therefore
  pruned, and so is every path that merely continues the text of a rule. For the rule
  \<open>/Library\<close> the path \<open>/Library/Foo\<close> is pruned and \<open>/Libraries/Foo\<close> is not, and the
  same holds for the full rule list of the program whatever the home directory is.
\<close>

theorem C3_prefix_pruning:
  "(should_prune rules p \<longleftrightarrow> (\<exists>r \<in> set rules. prefix r p)) \<and>
   (spec_should_prune rules p \<longrightarrow> should_prune rules p) \<and>
   should_prune [''/Library''] ''/Library/Foo'' \<and>
   \<not> should_prune [''/Library''] ''/Libraries/Foo'' \<and>
   should_prune (excluded_dirs_prefixes home) ''/Library/Foo'' \<and>
   \<not> should_prune (excluded_dirs_prefixes home) ''/Libraries/Foo''"
proof -
  have a: "should_prune rules p \<longleftrightarrow> (\<exists>r \<in> set rules. prefix r p)"
    by (simp add: should_prune_def list_ex_iff startswith_prefix)
  have b: "spec_should_prune rules p \<longrightarrow> should_prune rules p"
    by (auto simp: should_prune_def spec_should_prune_def list_ex_iff
        dest: segment_match_startswith)
  have c: "should_prune [''/Library''] ''/Library/Foo''"
    by (simp add: should_prune_def startswith_def)
  have d: "\<not> should_prune [''/Library''] ''/Libraries/Foo''"
    by (simp add: should_prune_def startswith_def)
  have e: "should_prune (excluded_dirs_prefixes home) ''/Library/Foo''"
    by (simp add: should_prune_def excluded_dirs_prefixes_def startswith_def)
  show ?thesis using a b c d e libraries_not_excluded by blast
qed

theorem C3_prefix_pruning_witness:
  "spec_should_prune [''/Library''] ''/Library/Foo'' \<and>
   should_prune [''/Library''] ''/Library/Foo'' \<and>
   (\<exists>r \<in> set [''/Library'']. prefix r ''/Library/Foo'')"
proof -
  have h: "spec_should_prune [''/Library''] ''/Library/Foo''"
    by (simp add: spec_should_prune_def segment_match_def startswith_def)
  note t = C3_prefix_pruning [of "[''/Library'']" "''/Library/Foo''" "''/Users/me''"]
  from t have imp: "spec_should_prune [''/Library''] ''/Library/Foo'' \<longrightarrow>
      should_prune [''/Library''] ''/Library/Foo''"
    by (rule conjunct1 [OF conjunct2])
  from t have iff: "should_prune [''/Library''] ''/Library/Foo'' \<longleftrightarrow>
      (\<exists>r \<in> set [''/Library'']. prefix r ''/Library/Foo'')"
    by (rule conjunct1)
  from h imp have sp: "should_prune [''/Library''] ''/Library/Foo''" by (rule rev_mp)
  from iff sp have "\<exists>r \<in> set [''/Library'']. prefix r ''/Library/Foo''" by (rule iffD1)
  with h sp show ?thesis by (intro conjI)
qed

section \<open>The analysis stage: yield order and skipped entries\<close>

lemma mset_remove_nth:
  "i < length xs \<Longrightarrow> add_mset (xs ! i) (mset (take i xs @ drop (Suc i) xs)) = mset xs"
proof -
  assume "i < length xs"
  then have "xs = take i xs @ xs ! i # drop (Suc i) xs" by (rule id_take_nth_drop)
  then have "mset xs = mset (take i xs @ xs ! i # drop (Suc i) xs)" by simp
  then show ?thesis by simp
qed

lemma mset_as_completed: "mset (as_completed pick k xs) = mset xs"
proof (induction pick k xs rule: as_completed.induct)
  case (1 pick k)
  show ?case by simp
next
  case (2 pick k x xs)
  define i where "i = pick k mod length (x # xs)"
  have i: "i < length (x # xs)" by (simp add: i_def)
  have "mset (as_completed pick k (x # xs)) =
        add_mset ((x # xs) ! i) (mset (take i (x # xs) @ drop (Suc i) (x # xs)))"
    using "2.IH" [OF i_def]
    by (simp add: i_def Let_def del: nth_Cons_Suc take_Suc_Cons drop_Suc_Cons)
  also have "\<dots> = mset (x # xs)" using i by (rule mset_remove_nth)
  finally show ?case .
qed

lemma as_completed_cong:
  "(\<And>j. k \<le> j \<Longrightarrow> p j = q j) \<Longrightarrow> as_completed p k xs = as_completed q k xs"
proof (induction p k xs rule: as_completed.induct)
  case (1 pick k)
  show ?case by simp
next
  case (2 pick k x xs)
  define i where "i = pick k mod length (x # xs)"
  have e: "pick k = q k" using "2.prems" [of k] by simp
  have "as_completed pick (Suc k) (take i (x # xs) @ drop (Suc i) (x # xs)) =
        as_completed q (Suc k) (take i (x # xs) @ drop (Suc i) (x # xs))"
    using "2.IH" [OF i_def] "2.prems" by simp
  then show ?case
    by (simp add: i_def e Let_def del: nth_Cons_Suc take_Suc_Cons drop_Suc_Cons)
qed

lemma as_completed_any_order:
  "mset ys = mset xs \<Longrightarrow> \<exists>pick. as_completed pick k xs = ys"
proof (induction ys arbitrary: xs k)
  case Nil
  then show ?case by simp
next
  case (Cons y ys)
  from Cons.prems have "y \<in> set xs" by (metis list.set_intros(1) set_mset_mset)
  then obtain i where i: "i < length xs" "xs ! i = y" by (auto simp: in_set_conv_nth)
  define xs' where "xs' = take i xs @ drop (Suc i) xs"
  have "add_mset y (mset xs') = mset xs"
    using mset_remove_nth [OF i(1)] i(2) by (simp add: xs'_def)
  with Cons.prems have "add_mset y (mset ys) = add_mset y (mset xs')" by simp
  then have "mset ys = mset xs'" by simp
  from Cons.IH [OF this] obtain p where p: "as_completed p (Suc k) xs' = ys" ..
  define q where "q = p(k := i)"
  have "as_completed q (Suc k) xs' = as_completed p (Suc k) xs'"
    by (rule as_completed_cong) (simp add: q_def)
  with p have r: "as_completed q (Suc k) xs' = ys" by simp
  from i obtain x rest where xs: "xs = x # rest" by (cases xs) auto
  have qk: "q k mod length xs = i" using i(1) by (simp add: q_def)
  have "as_completed q k xs = y # ys"
    using i(2) r qk unfolding xs xs'_def
    by (simp add: Let_def del: nth_Cons_Suc take_Suc_Cons drop_Suc_Cons)
  then show ?case by (rule exI [of _ q])
qed

lemma submit_loop_eq:
  "submit_loop ex g files =
     map (\<lambda>fi. (fi, get_file_safety_suggestion (g (path fi)))) (filter (\<lambda>fi. ex (path fi)) files)"
  by (induction files) simp_all

lemma path_collect_result [simp]: "path (collect_result fut) = path (fst fut)"
  by (cases fut rule: collect_result.cases) simp_all

lemma size_collect_result [simp]: "size_bytes (collect_result fut) = size_bytes (fst fut)"
  by (cases fut rule: collect_result.cases) simp_all

lemma analysis_mset:
  "mset (map (\<lambda>f. (path f, size_bytes f)) (analysis ex g pick files)) =
   mset (map (\<lambda>f. (path f, size_bytes f)) (filter (\<lambda>f. ex (path f)) files))"
proof -
  have "mset (map (\<lambda>f. (path f, size_bytes f)) (analysis ex g pick files)) =
        image_mset (\<lambda>fut. (path (fst fut), size_bytes (fst fut)))
          (mset (as_completed pick 0 (submit_loop ex g files)))"
    by (simp add: analysis_def comp_def multiset.map_comp)
  also have "\<dots> = image_mset (\<lambda>fut. (path (fst fut), size_bytes (fst fut)))
          (mset (submit_loop ex g files))"
    by (simp only: mset_as_completed)
  also have "\<dots> = mset (map (\<lambda>f. (path f, size_bytes f)) (filter (\<lambda>f. ex (path f)) files))"
    by (simp add: submit_loop_eq comp_def multiset.map_comp)
  finally show ?thesis .
qed

lemma analysis_any_order:
  "mset ys = mset (submit_loop ex g files) \<Longrightarrow>
   \<exists>pick. analysis ex g pick files = map collect_result ys"
proof -
  assume "mset ys = mset (submit_loop ex g files)"
  from as_completed_any_order [OF this, of 0] obtain pick where
    "as_completed pick 0 (submit_loop ex g files) = ys" ..
  then have "analysis ex g pick files = map collect_result ys" by (simp add: analysis_def)
  then show ?thesis by (rule exI [of _ pick])
qed

lemma set_analysis:
  "set (analysis ex g pick files) =
     (\<lambda>fi. collect_result (fi, get_file_safety_suggestion (g (path fi)))) `
       {fi \<in> set files. ex (path fi)}"
proof -
  have "set (as_completed pick 0 (submit_loop ex g files)) = set (submit_loop ex g files)"
    by (metis mset_as_completed set_mset_mset)
  then show ?thesis
    by (auto simp: analysis_def submit_loop_eq image_image)
qed

text \<open>
  C1 (as the specification states it): the returned sequence has the entries of the input
  in the input's rank order, whatever the order in which the concurrent calls come back.
  With two entries whose futures are yielded in the opposite order, the output lists the
  smaller file first.
\<close>

theorem C1_order_counterexample:
  "map path (analysis (\<lambda>p. True) (\<lambda>p. Raises ''timeout'') (\<lambda>k. if k = 0 then 1 else 0)
      [\<lparr>path = ''/a'', size_bytes = 2, ai_suggestion = None, color_code = None\<rparr>,
       \<lparr>path = ''/b'', size_bytes = 1, ai_suggestion = None, color_code = None\<rparr>])
   = [''/b'', ''/a'']"
  by (simp add: analysis_def Let_def)

text \<open>
  C1 (amended): the classification stage returns exactly the entries whose file exists
  at dispatch, each once and with path and size unchanged, in the order in which
  \<open>as_completed\<close> yields their futures. That order is fixed by the run and not by the rank:
  nothing puts the results back into rank order, and every order of the submitted entries
  is the output for some yield order.
\<close>

theorem C1_yield_order:
  "mset (map (\<lambda>f. (path f, size_bytes f)) (analysis ex g pick files)) =
     mset (map (\<lambda>f. (path f, size_bytes f)) (filter (\<lambda>f. ex (path f)) files)) \<and>
   (mset ys = mset (submit_loop ex g files) \<longrightarrow>
      (\<exists>pick'. analysis ex g pick' files = map collect_result ys))"
  using analysis_mset [of ex g pick files] analysis_any_order [of ys ex g files]
  by blast

theorem C1_yield_order_witness:
  "\<exists>pick. map path (analysis (\<lambda>p. True) (\<lambda>p. Raises ''timeout'') pick
      [\<lparr>path = ''/a'', size_bytes = 2, ai_suggestion = None, color_code = None\<rparr>,
       \<lparr>path = ''/b'', size_bytes = 1, ai_suggestion = None, color_code = None\<rparr>])
   = [''/b'', ''/a'']"
proof -
  let ?fa = "\<lparr>path = ''/a'', size_bytes = 2, ai_suggestion = None, color_code = None\<rparr>"
  let ?fb = "\<lparr>path = ''/b'', size_bytes = 1, ai_suggestion = None, color_code = None\<rparr>"
  let ?ex = "\<lambda>p::string. True"
  let ?g = "\<lambda>p::string. Raises ''timeout''"
  let ?ys = "rev (submit_loop ?ex ?g [?fa, ?fb])"
  have m: "mset ?ys = mset (submit_loop ?ex ?g [?fa, ?fb])" by (simp only: mset_rev)
  have "mset ?ys = mset (submit_loop ?ex ?g [?fa, ?fb]) \<longrightarrow>
      (\<exists>pick'. analysis ?ex ?g pick' [?fa, ?fb] = map collect_result ?ys)"
    by (rule conjunct2 [OF C1_yield_order [of ?ex ?g "\<lambda>k. 0" "[?fa, ?fb]" ?ys]])
  then have "\<exists>pick'. analysis ?ex ?g pick' [?fa, ?fb] = map collect_result ?ys"
    using m by (rule mp)
  then obtain pick where a: "analysis ?ex ?g pick [?fa, ?fb] = map collect_result ?ys" ..
  have "map path (map collect_result ?ys) = [''/b'', ''/a'']" by simp
  with a have r: "map path (analysis ?ex ?g pick [?fa, ?fb]) = [''/b'', ''/a'']" by (simp only:)
  show ?thesis by (rule exI [of _ pick]) (rule r)
qed

text \<open>
  C4 (as the specification states it): an entry whose file is gone at dispatch still
  appears in the output, marked as unavailable. With \<open>/a\<close> gone and \<open>/b\<close> present, the
  output holds \<open>/b\<close> only.
\<close>

theorem C4_dropped_counterexample:
  "map path (analysis (\<lambda>p. p \<noteq> ''/a'') (\<lambda>p. Raises ''timeout'') (\<lambda>k. 0)
      [\<lparr>path = ''/a'', size_bytes = 2, ai_suggestion = None, color_code = None\<rparr>,
       \<lparr>path = ''/b'', size_bytes = 1, ai_suggestion = None, color_code = None\<rparr>])
   = [''/b'']"
  by (simp add: analysis_def Let_def)

text \<open>
  C4 (amended): for an entry whose file no longer exists when the classification stage
  dispatches it, the oracle is not invoked, and the entry is left out of the
  classification output.
\<close>

theorem C4_vanished_skipped:
  "f \<in> set files \<Longrightarrow> \<not> ex (path f) \<Longrightarrow>
     path f \<notin> set (invoked_paths ex g files) \<and>
     path f \<notin> set (map path (analysis ex g pick files))"
  by (auto simp: invoked_paths_def submit_loop_eq set_analysis)

theorem C4_vanished_skipped_witness:
  "''/a'' \<notin> set (invoked_paths (\<lambda>p. p \<noteq> ''/a'') (\<lambda>p. Raises ''timeout'')
      [\<lparr>path = ''/a'', size_bytes = 2, ai_suggestion = None, color_code = None\<rparr>,
       \<lparr>path = ''/b'', size_bytes = 1, ai_suggestion = None, color_code = None\<rparr>]) \<and>
   ''/a'' \<notin> set (map path (analysis (\<lambda>p. p \<noteq> ''/a'') (\<lambda>p. Raises ''timeout'')
      (\<lambda>k. if k = 0 then 1 else 0)
      [\<lparr>path = ''/a'', size_bytes = 2, ai_suggestion = None, color_code = None\<rparr>,
       \<lparr>path = ''/b'', size_bytes = 1, ai_suggestion = None, color_code = None\<rparr>]))"
  using C4_vanished_skipped [of
      "\<lparr>path = ''/a'', size_bytes = 2, ai_suggestion = None, color_code = None\<rparr>"
      "[\<lparr>path = ''/a'', size_bytes = 2, ai_suggestion = None, color_code = None\<rparr>,
        \<lparr>path = ''/b'', size_bytes = 1, ai_suggestion = None, color_code = None\<rparr>]"
      "\<lambda>p. p \<noteq> ''/a''" "\<lambda>p. Raises ''timeout''" "\<lambda>k. if k = 0 then 1 else 0"]
  by simp

section \<open>The safety suggestion: parsing and failures\<close>

lemma py_in_sublist: "py_in needle s \<longleftrightarrow> sublist needle s"
  by (induction s) (simp_all add: startswith_prefix sublist_Cons_right)

lemma parse_response_wellformed:
  assumes "color_match t = Some cm" "reason_match t = Some rm" "cm \<noteq> []" "rm \<noteq> []"
  shows "parse_response t =
     (if sublist ''red'' cm then (rm, ''red'')
      else if sublist ''orange'' cm then (rm, ''orange'')
      else if sublist ''yellow'' cm then (rm, ''yellow'')
      else if sublist ''green'' cm then (rm, ''green'')
      else (''AI output unparseable: '' @ t, ''orange''))"
  using assms by (simp add: parse_response_def py_in_sublist)

lemma parse_response_mismatch:
  assumes "\<not> truthy (color_match t) \<or> \<not> truthy (reason_match t)"
  shows "parse_response t = (''AI output format mismatch: '' @ t, ''orange'')"
proof (cases "color_match t")
  case None
  then show ?thesis by (simp add: parse_response_def)
next
  case (Some cm)
  note cm = this
  show ?thesis
  proof (cases "reason_match t")
    case None
    with cm show ?thesis by (simp add: parse_response_def)
  next
    case (Some rm)
    with cm assms show ?thesis by (auto simp: parse_response_def)
  qed
qed

lemma parse_response_color:
  "snd (parse_response t) \<in> {''red'', ''orange'', ''yellow'', ''green''}"
proof (cases "truthy (color_match t) \<and> truthy (reason_match t)")
  case False
  then show ?thesis by (simp add: parse_response_mismatch)
next
  case True
  then obtain cm rm where "color_match t = Some cm" "reason_match t = Some rm" "cm \<noteq> []" "rm \<noteq> []"
    by (cases "color_match t"; cases "reason_match t") auto
  then show ?thesis by (simp add: parse_response_wellformed)
qed

text \<open>The lines of a text, and the first line that starts with a key.\<close>

lemma lines_py_split:
  assumes "py_join [c] lines = t" "lines \<noteq> []" "\<forall>l \<in> set lines. c \<notin> set l"
  shows "py_split [c] t = lines"
  using py_split_py_join_char [OF assms(2,3)] assms(1) by simp

lemma find_first:
  assumes "i < length xs" "P (xs ! i)" "\<forall>j<i. \<not> P (xs ! j)"
  shows "find P xs = Some (xs ! i)"
  using assms by (auto simp: find_Some_iff)

lemma find_none: "\<forall>x \<in> set xs. \<not> P x \<Longrightarrow> find P xs = None"
  by (simp add: find_None_iff)

lemma color_match_piece:
  assumes lines: "py_join [CHR 0x0A] lines = t" "lines \<noteq> []" "\<forall>l \<in> set lines. CHR 0x0A \<notin> set l"
    and i: "i < length lines" "lines ! i = ''Color:'' @ cpiece @ crest"
      "\<forall>j<i. \<not> prefix ''Color:'' (lines ! j)"
    and p: "crest = [] \<or> prefix ''Color:'' crest"
      "\<forall>j<length cpiece. \<not> prefix ''Color:'' (drop j (cpiece @ crest))"
  shows "color_match t = Some (py_lower (py_strip cpiece))"
proof -
  have l: "py_split [CHR 0x0A] t = lines" by (rule lines_py_split [OF lines])
  have s: "startswith (lines ! i) ''Color:''" unfolding i(2) by (simp add: startswith_def)
  have n: "\<forall>j<i. \<not> startswith (lines ! j) ''Color:''"
    using i(3) by (simp add: startswith_prefix)
  have f: "find (\<lambda>line. startswith line ''Color:'') lines = Some (lines ! i)"
    using i(1) s n by (rule find_first)
  have "py_split ''Color:'' (''Color:'' @ cpiece @ crest) ! 1 = cpiece"
    by (rule py_split_index1_piece [OF _ p]) simp
  then show ?thesis unfolding color_match_def l f i(2) by simp
qed

lemma reason_match_piece:
  assumes lines: "py_join [CHR 0x0A] lines = t" "lines \<noteq> []" "\<forall>l \<in> set lines. CHR 0x0A \<notin> set l"
    and k: "k < length lines" "lines ! k = ''Reason:'' @ rpiece"
      "\<forall>j<k. \<not> prefix ''Reason:'' (lines ! j)"
  shows "reason_match t = Some (py_strip rpiece)"
proof -
  have l: "py_split [CHR 0x0A] t = lines" by (rule lines_py_split [OF lines])
  have s: "startswith (lines ! k) ''Reason:''" unfolding k(2) by (simp add: startswith_def)
  have n: "\<forall>j<k. \<not> startswith (lines ! j) ''Reason:''"
    using k(3) by (simp add: startswith_prefix)
  have f: "find (\<lambda>line. startswith line ''Reason:'') lines = Some (lines ! k)"
    using k(1) s n by (rule find_first)
  have "py_split1 ''Reason:'' (''Reason:'' @ rpiece) ! 1 = drop (length ''Reason:'') (''Reason:'' @ rpiece)"
    by (rule py_split1_index1) (simp_all add: startswith_def)
  then have "py_split1 ''Reason:'' (''Reason:'' @ rpiece) ! 1 = rpiece" by simp
  then show ?thesis unfolding reason_match_def l f k(2) by simp
qed

lemma color_match_none:
  assumes lines: "py_join [CHR 0x0A] lines = t" "lines \<noteq> []" "\<forall>l \<in> set lines. CHR 0x0A \<notin> set l"
    and "\<forall>l \<in> set lines. \<not> prefix ''Color:'' l"
  shows "color_match t = None"
proof -
  have l: "py_split [CHR 0x0A] t = lines" by (rule lines_py_split [OF lines])
  have "find (\<lambda>line. startswith line ''Color:'') lines = None"
    using assms(4) by (simp add: find_None_iff startswith_prefix)
  then show ?thesis unfolding color_match_def l by simp
qed

lemma reason_match_none:
  assumes lines: "py_join [CHR 0x0A] lines = t" "lines \<noteq> []" "\<forall>l \<in> set lines. CHR 0x0A \<notin> set l"
    and "\<forall>l \<in> set lines. \<not> prefix ''Reason:'' l"
  shows "reason_match t = None"
proof -
  have l: "py_split [CHR 0x0A] t = lines" by (rule lines_py_split [OF lines])
  have "find (\<lambda>line. startswith line ''Reason:'') lines = None"
    using assms(4) by (simp add: find_None_iff startswith_prefix)
  then show ?thesis unfolding reason_match_def l by simp
qed

text \<open>Every text has its lines.\<close>

lemma lines_exist:
  "\<exists>lines. py_join [c] lines = t \<and> lines \<noteq> [] \<and> (\<forall>l \<in> set lines. c \<notin> set l)"
proof (intro exI conjI)
  show "py_join [c] (py_split [c] t) = t" by (rule py_join_py_split_char)
  show "py_split [c] t \<noteq> []" by (rule py_split_not_Nil)
  show "\<forall>l \<in> set (py_split [c] t). c \<notin> set l" by (auto dest: py_split_char_no_sep)
qed

text \<open>
  C5 (as the specification states it): the first recognised category token of the
  response decides the risk level. In the response \<open>Color: Green, not Red\<close> followed by
  the line \<open>Reason: x\<close> the first recognised token is \<open>green\<close>, and the parser answers
  \<open>red\<close>.
\<close>

theorem C5_first_token_counterexample:
  "get_file_safety_suggestion (Responds (''Color: Green, not Red'' @ [CHR 0x0A] @ ''Reason: x''))
     = Inr (''x'', ''red'') \<and>
   spec_first_token (''Color: Green, not Red'' @ [CHR 0x0A] @ ''Reason: x'') = Some ''green''"
  by code_simp

text \<open>
  C5 (amended): let \<open>lines\<close> be the lines of the stripped response, the pieces between
  its newline characters. The colour text is taken from the first line that starts with
  \<open>Color:\<close>: it is the piece of that line between the leading \<open>Color:\<close> and the next
  occurrence of \<open>Color:\<close> on the line, or the end of the line, stripped and put in lower
  case. The reason text is taken from the first line that starts with \<open>Reason:\<close>: it is
  all that follows the leading \<open>Reason:\<close>, stripped. When both lines exist and both texts
  are not empty, the risk level is the first of red, orange, yellow, green, in this fixed
  order of priority, that occurs in the colour text, and the reason is the reason text;
  when none of the four occurs the result is orange with the reason
  \<open>AI output unparseable:\<close> followed by the stripped response. When a text is empty, or
  no line starts with \<open>Color:\<close>, or none with \<open>Reason:\<close>, the result is orange with the
  reason \<open>AI output format mismatch:\<close> followed by the stripped response. The level is
  always one of the four, and the response \<open>Color: Green\<close>, \<open>Reason: test\<close> yields green
  with the reason \<open>test\<close>.
\<close>

theorem C5_parser:
  assumes "py_join [CHR 0x0A] lines = py_strip raw" "lines \<noteq> []"
    "\<forall>l \<in> set lines. CHR 0x0A \<notin> set l"
  shows
   "(i < length lines \<and> lines ! i = ''Color:'' @ cpiece @ crest \<and>
       (\<forall>j<i. \<not> prefix ''Color:'' (lines ! j)) \<and>
       (crest = [] \<or> prefix ''Color:'' crest) \<and>
       (\<forall>j<length cpiece. \<not> prefix ''Color:'' (drop j (cpiece @ crest))) \<and>
     k < length lines \<and> lines ! k = ''Reason:'' @ rpiece \<and>
       (\<forall>j<k. \<not> prefix ''Reason:'' (lines ! j)) \<longrightarrow>
     get_file_safety_suggestion (Responds raw) =
       Inr (if py_lower (py_strip cpiece) = [] \<or> py_strip rpiece = []
              then (''AI output format mismatch: '' @ py_strip raw, ''orange'')
            else if sublist ''red'' (py_lower (py_strip cpiece)) then (py_strip rpiece, ''red'')
            else if sublist ''orange'' (py_lower (py_strip cpiece)) then (py_strip rpiece, ''orange'')
            else if sublist ''yellow'' (py_lower (py_strip cpiece)) then (py_strip rpiece, ''yellow'')
            else if sublist ''green'' (py_lower (py_strip cpiece)) then (py_strip rpiece, ''green'')
            else (''AI output unparseable: '' @ py_strip raw, ''orange''))) \<and>
    ((\<forall>l \<in> set lines. \<not> prefix ''Color:'' l) \<or> (\<forall>l \<in> set lines. \<not> prefix ''Reason:'' l) \<longrightarrow>
     get_file_safety_suggestion (Responds raw) =
       Inr (''AI output format mismatch: '' @ py_strip raw, ''orange'')) \<and>
    (\<exists>r c. get_file_safety_suggestion (Responds raw) = Inr (r, c) \<and>
       c \<in> {''red'', ''orange'', ''yellow'', ''green''}) \<and>
    get_file_safety_suggestion (Responds (''Color: Green'' @ [CHR 0x0A] @ ''Reason: test''))
      = Inr (''test'', ''green'')"
proof (intro conjI impI)
  assume h: "i < length lines \<and> lines ! i = ''Color:'' @ cpiece @ crest \<and>
       (\<forall>j<i. \<not> prefix ''Color:'' (lines ! j)) \<and>
       (crest = [] \<or> prefix ''Color:'' crest) \<and>
       (\<forall>j<length cpiece. \<not> prefix ''Color:'' (drop j (cpiece @ crest))) \<and>
     k < length lines \<and> lines ! k = ''Reason:'' @ rpiece \<and>
       (\<forall>j<k. \<not> prefix ''Reason:'' (lines ! j))"
  have cm: "color_match (py_strip raw) = Some (py_lower (py_strip cpiece))"
    using assms h by (intro color_match_piece [where i = i and crest = crest]) blast+
  have rm: "reason_match (py_strip raw) = Some (py_strip rpiece)"
    using assms h by (intro reason_match_piece [where k = k]) blast+
  show "get_file_safety_suggestion (Responds raw) =
       Inr (if py_lower (py_strip cpiece) = [] \<or> py_strip rpiece = []
              then (''AI output format mismatch: '' @ py_strip raw, ''orange'')
            else if sublist ''red'' (py_lower (py_strip cpiece)) then (py_strip rpiece, ''red'')
            else if sublist ''orange'' (py_lower (py_strip cpiece)) then (py_strip rpiece, ''orange'')
            else if sublist ''yellow'' (py_lower (py_strip cpiece)) then (py_strip rpiece, ''yellow'')
            else if sublist ''green'' (py_lower (py_strip cpiece)) then (py_strip rpiece, ''green'')
            else (''AI output unparseable: '' @ py_strip raw, ''orange''))"
  proof (cases "py_lower (py_strip cpiece) = [] \<or> py_strip rpiece = []")
    case True
    then have "\<not> truthy (color_match (py_strip raw)) \<or> \<not> truthy (reason_match (py_strip raw))"
      using cm rm by auto
    from parse_response_mismatch [OF this] True show ?thesis by simp
  next
    case False
    then have "py_lower (py_strip cpiece) \<noteq> []" "py_strip rpiece \<noteq> []" by simp_all
    from parse_response_wellformed [OF cm rm this] False show ?thesis by simp
  qed
next
  assume "(\<forall>l \<in> set lines. \<not> prefix ''Color:'' l) \<or> (\<forall>l \<in> set lines. \<not> prefix ''Reason:'' l)"
  then have "color_match (py_strip raw) = None \<or> reason_match (py_strip raw) = None"
  proof
    assume "\<forall>l \<in> set lines. \<not> prefix ''Color:'' l"
    from color_match_none [OF assms this] show ?thesis by (rule disjI1)
  next
    assume "\<forall>l \<in> set lines. \<not> prefix ''Reason:'' l"
    from reason_match_none [OF assms this] show ?thesis by (rule disjI2)
  qed
  then have "\<not> truthy (color_match (py_strip raw)) \<or> \<not> truthy (reason_match (py_strip raw))"
    by auto
  from parse_response_mismatch [OF this]
  show "get_file_safety_suggestion (Responds raw) =
       Inr (''AI output format mismatch: '' @ py_strip raw, ''orange'')" by simp
next
  show "\<exists>r c. get_file_safety_suggestion (Responds raw) = Inr (r, c) \<and>
       c \<in> {''red'', ''orange'', ''yellow'', ''green''}"
    using parse_response_color [of "py_strip raw"]
    by (cases "parse_response (py_strip raw)") simp
next
  show "get_file_safety_suggestion (Responds (''Color: Green'' @ [CHR 0x0A] @ ''Reason: test''))
      = Inr (''test'', ''green'')"
    by code_simp
qed

theorem C5_parser_witness:
  "get_file_safety_suggestion
     (Responds (''Color: Green Color: Red'' @ [CHR 0x0A] @ ''Reason: test'')) =
   Inr (''test'', ''green'')"
proof -
  let ?raw = "''Color: Green Color: Red'' @ [CHR 0x0A] @ ''Reason: test''"
  let ?lines = "[''Color: Green Color: Red'', ''Reason: test'']"
  have s: "py_strip ?raw = ?raw" by code_simp
  have a1: "py_join [CHR 0x0A] ?lines = py_strip ?raw" unfolding s by simp
  have a2: "?lines \<noteq> []" by simp
  have a3: "\<forall>l \<in> set ?lines. CHR 0x0A \<notin> set l" by simp
  have n: "\<not> sublist ''Color:'' '' Green ''"
    by (simp add: py_in_sublist [symmetric] startswith_def)
  have m: "\<forall>j<length '' Green ''. \<not> prefix ''Color:'' (drop j ('' Green '' @ ''Color: Red''))"
  proof (intro allI impI)
    fix j :: nat assume "j < length '' Green ''"
    then have "j \<in> {0, 1, 2, 3, 4, 5, 6}" by auto
    then show "\<not> prefix ''Color:'' (drop j ('' Green '' @ ''Color: Red''))" by auto
  qed
  have h: "0 < length ?lines \<and> ?lines ! 0 = ''Color:'' @ '' Green '' @ ''Color: Red'' \<and>
       (\<forall>j<0. \<not> prefix ''Color:'' (?lines ! j)) \<and>
       (''Color: Red'' = [] \<or> prefix ''Color:'' ''Color: Red'') \<and>
       (\<forall>j<length '' Green ''. \<not> prefix ''Color:'' (drop j ('' Green '' @ ''Color: Red''))) \<and>
     1 < length ?lines \<and> ?lines ! 1 = ''Reason:'' @ '' test'' \<and>
       (\<forall>j<1. \<not> prefix ''Reason:'' (?lines ! j))"
    using m by simp
  note t = C5_parser [OF a1 a2 a3, of 0 "'' Green ''" "''Color: Red''" 1 "'' test''"]
  have r: "get_file_safety_suggestion (Responds ?raw) =
       Inr (if py_lower (py_strip '' Green '') = [] \<or> py_strip '' test'' = []
              then (''AI output format mismatch: '' @ py_strip ?raw, ''orange'')
            else if sublist ''red'' (py_lower (py_strip '' Green '')) then (py_strip '' test'', ''red'')
            else if sublist ''orange'' (py_lower (py_strip '' Green '')) then (py_strip '' test'', ''orange'')
            else if sublist ''yellow'' (py_lower (py_strip '' Green '')) then (py_strip '' test'', ''yellow'')
            else if sublist ''green'' (py_lower (py_strip '' Green '')) then (py_strip '' test'', ''green'')
            else (''AI output unparseable: '' @ py_strip ?raw, ''orange''))"
    using h by (rule mp [OF conjunct1 [OF t]])
  have c: "py_lower (py_strip '' Green '') = ''green''" by code_simp
  have d: "py_strip '' test'' = ''test''" by code_simp
  have e: "\<not> sublist ''red'' ''green''" "\<not> sublist ''orange'' ''green''"
    "\<not> sublist ''yellow'' ''green''" "sublist ''green'' ''green''"
    by (simp_all add: py_in_sublist [symmetric] startswith_def)
  show ?thesis using r unfolding c d using e by simp
qed








section \<open>The scan: order, threshold and root\<close>

lemma slice_to_prefix: "prefix (slice_to n xs) xs"
  by (simp add: slice_to_def take_is_prefix)

lemma sorted_sort_by_size_desc:
  "sorted_wrt (\<lambda>a b. size_bytes b \<le> size_bytes a) (sort_by_size_desc xs)"
proof -
  have "sorted (map (\<lambda>x. - int (size_bytes x)) (sort_by_size_desc xs))"
    unfolding sort_by_size_desc_def by (rule sorted_sort_key)
  then show ?thesis by (simp add: sorted_map)
qed

lemma sort_by_size_desc_stable:
  "filter (\<lambda>f. size_bytes f = k) (sort_by_size_desc xs) = filter (\<lambda>f. size_bytes f = k) xs"
proof -
  have "filter (\<lambda>y. - int (size_bytes y) = - int k) (sort_key (\<lambda>x. - int (size_bytes x)) xs) =
        filter (\<lambda>y. - int (size_bytes y) = - int k) xs"
    by (rule sort_key_stable)
  then show ?thesis by (simp add: sort_by_size_desc_def)
qed

lemma mset_sort_by_size_desc: "mset (sort_by_size_desc xs) = mset xs"
  by (simp add: sort_by_size_desc_def)

lemma set_get_biggest_files:
  "set (get_biggest_files home es start n m) \<subseteq> set (walk (excluded_dirs_prefixes home) m start es)"
proof -
  have "set (get_biggest_files home es start n m) \<subseteq>
        set (sort_by_size_desc (walk (excluded_dirs_prefixes home) m start es))"
    unfolding get_biggest_files_def by (rule set_mono_prefix [OF slice_to_prefix])
  also have "\<dots> = set (walk (excluded_dirs_prefixes home) m start es)"
    by (metis mset_sort_by_size_desc set_mset_mset)
  finally show ?thesis .
qed

text \<open>
  C7: for every directory tree, the sequence the scanner returns is sorted in descending
  order of size, and for every size the returned entries of that size are an initial
  part of the entries of that size in the order in which the walk met them. The result
  is a function of the tree as the walk lists it, so two scans of an unchanged tree
  return the same sequence.
\<close>

theorem C7_sorted_stable:
  "sorted_wrt (\<lambda>a b. size_bytes b \<le> size_bytes a) (get_biggest_files home es start n m) \<and>
   prefix (filter (\<lambda>f. size_bytes f = k) (get_biggest_files home es start n m))
          (filter (\<lambda>f. size_bytes f = k) (walk (excluded_dirs_prefixes home) m start es))"
proof
  let ?w = "walk (excluded_dirs_prefixes home) m start es"
  have p: "prefix (get_biggest_files home es start n m) (sort_by_size_desc ?w)"
    unfolding get_biggest_files_def by (rule slice_to_prefix)
  then obtain zs where zs: "sort_by_size_desc ?w = get_biggest_files home es start n m @ zs"
    by (auto simp: prefix_def)
  have "sorted_wrt (\<lambda>a b. size_bytes b \<le> size_bytes a) (sort_by_size_desc ?w)"
    by (rule sorted_sort_by_size_desc)
  then show "sorted_wrt (\<lambda>a b. size_bytes b \<le> size_bytes a) (get_biggest_files home es start n m)"
    unfolding zs by (simp add: sorted_wrt_append)
  have "prefix (filter (\<lambda>f. size_bytes f = k) (get_biggest_files home es start n m))
               (filter (\<lambda>f. size_bytes f = k) (sort_by_size_desc ?w))"
    unfolding zs by simp
  then show "prefix (filter (\<lambda>f. size_bytes f = k) (get_biggest_files home es start n m))
          (filter (\<lambda>f. size_bytes f = k) ?w)"
    by (simp only: sort_by_size_desc_stable)
qed

lemma path_parts_clean:
  "p \<in> set (path_parts s) \<Longrightarrow> p \<noteq> [] \<and> CHR ''/'' \<notin> set p \<and> p \<noteq> ''.''"
  by (auto simp: path_parts_def dest: py_split_char_no_sep)

lemma py_split_py_join:
  "ps \<noteq> [] \<Longrightarrow> \<forall>p \<in> set ps. CHR ''/'' \<notin> set p \<Longrightarrow> py_split ''/'' (py_join ''/'' ps) = ps"
proof (induction "''/''" ps rule: py_join.induct)
  case 1
  then show ?case by simp
next
  case (2 x)
  then show ?case by (simp add: py_split_char_clean del: py_split.simps)
next
  case (3 x y ys)
  have "py_split ''/'' (x @ CHR ''/'' # py_join ''/'' (y # ys)) =
        py_split ''/'' x @ py_split ''/'' (py_join ''/'' (y # ys))"
    by (rule py_split_char_append)
  with 3 show ?case by (simp add: py_split_char_clean del: py_split.simps)
qed

lemma py_join_head:
  "ps \<noteq> [] \<Longrightarrow> \<forall>p \<in> set ps. p \<noteq> [] \<and> CHR ''/'' \<notin> set p \<Longrightarrow>
     \<exists>c t. py_join ''/'' ps = c # t \<and> c \<noteq> CHR ''/''"
proof (induction "''/''" ps rule: py_join.induct)
  case 1
  then show ?case by simp
next
  case (2 x)
  then show ?case by (cases x) auto
next
  case (3 x y ys)
  then show ?case by (cases x) auto
qed

lemma path_anchor_values: "path_anchor s \<in> {[], ''/'', ''//''}"
  by (simp add: path_anchor_def splitroot_def)

lemma splitroot_format:
  assumes "a \<in> {[], ''/'', ''//''}" "ps \<noteq> []" "\<forall>p \<in> set ps. p \<noteq> [] \<and> CHR ''/'' \<notin> set p"
  shows "splitroot (a @ py_join ''/'' ps) = (a, py_join ''/'' ps)"
proof -
  from py_join_head [OF assms(2,3)] obtain c t where j: "py_join ''/'' ps = c # t" "c \<noteq> CHR ''/''"
    by blast
  with assms(1) show ?thesis by (auto simp: splitroot_def startswith_def)
qed

lemma format_path_roundtrip:
  assumes "a \<in> {[], ''/'', ''//''}" "ps \<noteq> []"
    "\<forall>p \<in> set ps. p \<noteq> [] \<and> CHR ''/'' \<notin> set p \<and> p \<noteq> ''.''"
  shows "path_anchor (format_path a ps) = a" "path_parts (format_path a ps) = ps"
proof -
  have c: "\<forall>p \<in> set ps. p \<noteq> [] \<and> CHR ''/'' \<notin> set p" using assms(3) by blast
  have f: "format_path a ps = a @ py_join ''/'' ps" using assms(2) by (simp add: format_path_def)
  have s: "splitroot (a @ py_join ''/'' ps) = (a, py_join ''/'' ps)"
    by (rule splitroot_format [OF assms(1,2) c])
  show "path_anchor (format_path a ps) = a" by (simp add: f s path_anchor_def)
  have "py_split ''/'' (py_join ''/'' ps) = ps" using assms(2) c by (simp add: py_split_py_join)
  moreover have "filter (\<lambda>x. x \<noteq> [] \<and> x \<noteq> ''.'') ps = ps" using assms(3) by (simp add: filter_id_conv)
  ultimately show "path_parts (format_path a ps) = ps" by (simp add: f s path_parts_def)
qed

lemma scan_files_iff:
  "f \<in> set (scan_files m root es) \<longleftrightarrow>
     (\<exists>file sz. File file (Some sz) \<in> set es \<and> m * 1024 * 1024 < int sz \<and>
        f = \<lparr>path = str_Path (os_path_join root file), size_bytes = sz,
              ai_suggestion = None, color_code = None\<rparr>)"
  by (induction m root es rule: scan_files.induct) auto

lemma valid_tree_File: "valid_tree es \<Longrightarrow> File n st \<in> set es \<Longrightarrow> valid_name n"
  by (induction es rule: valid_tree.induct) auto

lemma scan_files_under_root:
  assumes "valid_tree es" "f \<in> set (scan_files m root es)"
  shows "under_root m root f"
proof -
  from assms(2) obtain fname sz where
    f: "File fname (Some sz) \<in> set es" "m * 1024 * 1024 < int sz"
       "f = \<lparr>path = str_Path (os_path_join root fname), size_bytes = sz,
              ai_suggestion = None, color_code = None\<rparr>"
    by (auto simp: scan_files_iff)
  from valid_tree_File [OF assms(1) f(1)] have v: "valid_name fname" .
  have "path f = format_path (path_anchor root) (path_parts root @ [fname])"
    using f(3) v by (simp add: str_Path_def path_anchor_join path_parts_join)
  with v have "\<exists>segs. segs \<noteq> [] \<and> list_all valid_name segs \<and>
      path f = format_path (path_anchor root) (path_parts root @ segs)"
    by (intro exI [of _ "[fname]"]) simp
  moreover have "m * 1024 * 1024 < int (size_bytes f)" using f(2,3) by simp
  ultimately show ?thesis unfolding under_root_def by (rule conjI [rotated])
qed

lemma under_root_join:
  assumes "valid_name d" "under_root m (os_path_join root d) f"
  shows "under_root m root f"
proof -
  from assms(2) obtain segs where s: "m * 1024 * 1024 < int (size_bytes f)" "segs \<noteq> []"
    "list_all valid_name segs"
    "path f = format_path (path_anchor (os_path_join root d)) (path_parts (os_path_join root d) @ segs)"
    unfolding under_root_def by blast
  have "path f = format_path (path_anchor root) (path_parts root @ (d # segs))"
    using s(4) assms(1) by (simp add: path_anchor_join path_parts_join)
  with s(3) assms(1) have "\<exists>segs. segs \<noteq> [] \<and> list_all valid_name segs \<and>
      path f = format_path (path_anchor root) (path_parts root @ segs)"
    by (intro exI [of _ "d # segs"]) simp
  with s(1) show ?thesis unfolding under_root_def by (rule conjI)
qed

lemma walk_under_root:
  "valid_tree es \<Longrightarrow> f \<in> set (walk excluded m root es) \<Longrightarrow> under_root m root f"
  "valid_tree es \<Longrightarrow> f \<in> set (walk_dirs excluded m root es) \<Longrightarrow> under_root m root f"
proof (induction excluded m root es and excluded m root es rule: walk_walk_dirs.induct)
  case (1 excluded min_size_mb root es)
  then show ?case by (auto dest: scan_files_under_root)
next
  case (2 excluded min_size_mb root)
  then show ?case by simp
next
  case (3 excluded min_size_mb root fname st es)
  then show ?case by simp
next
  case (4 excluded min_size_mb root d sub es)
  from "4.prems" have v: "valid_name d" "valid_tree sub" "valid_tree es" by simp_all
  from "4.prems"(2) consider
    (a) "\<not> should_prune excluded (os_path_join root d)"
        "f \<in> set (walk excluded min_size_mb (os_path_join root d) sub)"
    | (b) "f \<in> set (walk_dirs excluded min_size_mb root es)"
    by (auto split: if_splits)
  then show ?case
  proof cases
    case a
    from "4.IH"(1) [OF a(1) v(2) a(2)] have "under_root min_size_mb (os_path_join root d) f" .
    with v(1) show ?thesis by (rule under_root_join)
  next
    case b
    with "4.IH"(2) v(3) show ?thesis by simp
  qed
qed


theorem C7_sorted_stable_witness:
  "sorted_wrt (\<lambda>a b. size_bytes b \<le> size_bytes a)
     (get_biggest_files ''/Users/me''
        [File ''a'' (Some 5242880), File ''b'' (Some 209715200),
         Dir ''d'' [File ''c'' (Some 157286400)], File ''e'' (Some 157286400),
         File ''f'' (Some 94371840)] ''/data'' 3 50) \<and>
   map path (get_biggest_files ''/Users/me''
        [File ''a'' (Some 5242880), File ''b'' (Some 209715200),
         Dir ''d'' [File ''c'' (Some 157286400)], File ''e'' (Some 157286400),
         File ''f'' (Some 94371840)] ''/data'' 3 50)
     = [''/data/b'', ''/data/e'', ''/data/d/c'']"
proof
  show "sorted_wrt (\<lambda>a b. size_bytes b \<le> size_bytes a)
     (get_biggest_files ''/Users/me''
        [File ''a'' (Some 5242880), File ''b'' (Some 209715200),
         Dir ''d'' [File ''c'' (Some 157286400)], File ''e'' (Some 157286400),
         File ''f'' (Some 94371840)] ''/data'' 3 50)"
    by (rule conjunct1 [OF C7_sorted_stable])
  show "map path (get_biggest_files ''/Users/me''
        [File ''a'' (Some 5242880), File ''b'' (Some 209715200),
         Dir ''d'' [File ''c'' (Some 157286400)], File ''e'' (Some 157286400),
         File ''f'' (Some 94371840)] ''/data'' 3 50)
     = [''/data/b'', ''/data/e'', ''/data/d/c'']"
    by (simp add: get_biggest_files_def slice_to_def sort_by_size_desc_def
        should_prune_def excluded_dirs_prefixes_def home_sub_def os_path_join_def
        startswith_def endswith_def str_Path_def format_path_def path_anchor_def
        path_parts_def splitroot_def)
qed

text \<open>
  C8: for every well-formed directory tree and every threshold \<open>m\<close> in MB, every record
  the scanner returns has a size strictly greater than \<open>m * 1024 * 1024\<close> bytes, and its
  path lies under the scan root: it is the path of the root continued by one or more
  names, with the same anchor and with the root's parts as the first of its own.
\<close>

theorem C8_size_and_root:
  assumes "valid_tree es" "f \<in> set (get_biggest_files home es start n m)"
  shows "m * 1024 * 1024 < int (size_bytes f) \<and>
     (\<exists>segs. segs \<noteq> [] \<and> list_all valid_name segs \<and>
        path f = format_path (path_anchor start) (path_parts start @ segs) \<and>
        path_anchor (path f) = path_anchor start \<and>
        path_parts (path f) = path_parts start @ segs)"
proof -
  from assms(2) have "f \<in> set (walk (excluded_dirs_prefixes home) m start es)"
    using set_get_biggest_files by blast
  with assms(1) have "under_root m start f" by (rule walk_under_root(1))
  then obtain segs where s: "m * 1024 * 1024 < int (size_bytes f)" "segs \<noteq> []"
    "list_all valid_name segs"
    "path f = format_path (path_anchor start) (path_parts start @ segs)"
    unfolding under_root_def by blast
  have clean: "\<forall>p \<in> set (path_parts start @ segs). p \<noteq> [] \<and> CHR ''/'' \<notin> set p \<and> p \<noteq> ''.''"
    using s(3) path_parts_clean [of _ start] by (auto simp: list_all_iff valid_name_def)
  have ne: "path_parts start @ segs \<noteq> []" using s(2) by simp
  note rt = format_path_roundtrip [OF path_anchor_values ne clean]
  have "path_anchor (path f) = path_anchor start" "path_parts (path f) = path_parts start @ segs"
    using rt by (simp_all add: s(4))
  with s have "segs \<noteq> [] \<and> list_all valid_name segs \<and>
        path f = format_path (path_anchor start) (path_parts start @ segs) \<and>
        path_anchor (path f) = path_anchor start \<and>
        path_parts (path f) = path_parts start @ segs" by simp
  then have "\<exists>segs. segs \<noteq> [] \<and> list_all valid_name segs \<and>
        path f = format_path (path_anchor start) (path_parts start @ segs) \<and>
        path_anchor (path f) = path_anchor start \<and>
        path_parts (path f) = path_parts start @ segs" by (rule exI)
  with s(1) show ?thesis by (rule conjI)
qed

theorem C8_size_and_root_witness:
  "valid_tree [File ''a'' (Some 5242880), File ''b'' (Some 209715200),
               Dir ''d'' [File ''c'' (Some 157286400)]] \<and>
   \<lparr>path = ''/data/d/c'', size_bytes = 157286400, ai_suggestion = None, color_code = None\<rparr>
     \<in> set (get_biggest_files ''/Users/me''
          [File ''a'' (Some 5242880), File ''b'' (Some 209715200),
           Dir ''d'' [File ''c'' (Some 157286400)]] ''/data/'' 3 50) \<and>
   50 * 1024 * 1024 < int 157286400 \<and>
   (\<exists>segs. segs \<noteq> [] \<and> path_parts ''/data/d/c'' = path_parts ''/data/'' @ segs)"
proof -
  let ?es = "[File ''a'' (Some 5242880), File ''b'' (Some 209715200),
               Dir ''d'' [File ''c'' (Some 157286400)]]"
  let ?f = "\<lparr>path = ''/data/d/c'', size_bytes = 157286400, ai_suggestion = None,
              color_code = None\<rparr>"
  have v: "valid_tree ?es" by (simp add: valid_name_def)
  have g: "get_biggest_files ''/Users/me'' ?es ''/data/'' 3 50 =
      [\<lparr>path = ''/data/b'', size_bytes = 209715200, ai_suggestion = None, color_code = None\<rparr>, ?f]"
    by (simp add: get_biggest_files_def slice_to_def sort_by_size_desc_def
        should_prune_def excluded_dirs_prefixes_def home_sub_def os_path_join_def
        startswith_def endswith_def str_Path_def format_path_def path_anchor_def
        path_parts_def splitroot_def)
  have m: "?f \<in> set (get_biggest_files ''/Users/me'' ?es ''/data/'' 3 50)"
    by (simp only: g list.set_intros)
  from C8_size_and_root [OF v m]
  have "50 * 1024 * 1024 < int (size_bytes ?f)"
    and "\<exists>segs. segs \<noteq> [] \<and> list_all valid_name segs \<and>
        path ?f = format_path (path_anchor ''/data/'') (path_parts ''/data/'' @ segs) \<and>
        path_anchor (path ?f) = path_anchor ''/data/'' \<and>
        path_parts (path ?f) = path_parts ''/data/'' @ segs"
    by (rule conjunct1, rule conjunct2)
  then have a: "50 * 1024 * 1024 < int 157286400"
    and b: "\<exists>segs. segs \<noteq> [] \<and> path_parts ''/data/d/c'' = path_parts ''/data/'' @ segs"
    by auto
  from v m a b show ?thesis by (intro conjI)
qed

subsection \<open>The scan root and the exclusion rules\<close>









section \<open>The session state: freed space and the bulk handler\<close>

lemma bulk_delete_button_space:
  "space_liberated s \<le> space_liberated (fst (bulk_delete_button w s))"
  by (simp add: bulk_delete_button_def Let_def split: prod.splits)

lemma delete_button_space:
  "space_liberated s \<le> space_liberated (fst (delete_button i w s))"
  by (simp add: delete_button_def Let_def split: prod.splits bool.splits)

lemma toggle_space: "space_liberated (toggle f s) = space_liberated s"
  by (simp add: toggle_def)

lemma display_pass_space: "space_liberated (display_pass w s) = space_liberated s"
  by (simp add: display_pass_def)

lemma start_scan_space:
  "space_liberated (start_scan req w s) =
     (if gemini_model req = None then space_liberated s else 0)"
  by (simp add: start_scan_def Let_def split: option.splits)

lemma step_space:
  "\<not> is_start_scan ev \<Longrightarrow> space_liberated s \<le> space_liberated (fst (step w ev s))"
  by (cases ev)
    (simp_all add: bulk_delete_button_space delete_button_space toggle_space display_pass_space)

lemma run_space:
  "list_all (\<lambda>(w, ev). \<not> is_start_scan ev) evs \<Longrightarrow>
     space_liberated s \<le> space_liberated (run evs s)"
proof (induction evs arbitrary: s)
  case Nil
  show ?case by simp
next
  case (Cons a evs)
  obtain w ev where a: "a = (w, ev)" by (cases a)
  with Cons.prems have n: "\<not> is_start_scan ev" and r: "list_all (\<lambda>(w, ev). \<not> is_start_scan ev) evs"
    by simp_all
  have "space_liberated s \<le> space_liberated (fst (step w ev s))" using n by (rule step_space)
  also have "\<dots> \<le> space_liberated (run evs (fst (step w ev s)))" using r by (rule Cons.IH)
  finally show ?case by (simp add: a)
qed

text \<open>
  C9: \<open>space_liberated\<close> never decreases under an operation other than the start of
  a scan: the trash operations add the sizes of the files they moved, and the other
  operations leave the counter as it is. The start of a scan sets it to zero (and does
  nothing when no model is configured). So the counter never decreases along a run
  without a new scan.
\<close>

theorem C9_space_liberated_monotone:
  "(\<not> is_start_scan ev \<longrightarrow> space_liberated s \<le> space_liberated (fst (step w ev s))) \<and>
   space_liberated (fst (step w (StartScan req) s)) =
     (if gemini_model req = None then space_liberated s else 0) \<and>
   (list_all (\<lambda>(w, ev). \<not> is_start_scan ev) evs \<longrightarrow>
      space_liberated s \<le> space_liberated (run evs s))"
  using step_space [of ev s w] start_scan_space [of req w s] run_space [of evs s]
  by simp

theorem C9_space_liberated_monotone_witness:
  "list_all (\<lambda>(w, ev). \<not> is_start_scan ev)
     [(\<lparr>disk = [''/a'' \<mapsto> 100, ''/b'' \<mapsto> 50],
        stat_error = (\<lambda>p. FileNotFoundError ''No such file or directory''),
        trash_error = (\<lambda>p. None)\<rparr>, Toggle ''/b''),
      (\<lparr>disk = [''/a'' \<mapsto> 100, ''/b'' \<mapsto> 50],
        stat_error = (\<lambda>p. FileNotFoundError ''No such file or directory''),
        trash_error = (\<lambda>p. None)\<rparr>, BulkDelete)] \<and>
   space_liberated \<lparr>scanned_files =
        [\<lparr>path = ''/a'', size_bytes = 100, ai_suggestion = None, color_code = None\<rparr>,
         \<lparr>path = ''/b'', size_bytes = 50, ai_suggestion = None, color_code = None\<rparr>],
      scan_completed = True, analysis_completed = True, selected_files = {''/a''},
      space_liberated = 7\<rparr>
   \<le> space_liberated (run
     [(\<lparr>disk = [''/a'' \<mapsto> 100, ''/b'' \<mapsto> 50],
        stat_error = (\<lambda>p. FileNotFoundError ''No such file or directory''),
        trash_error = (\<lambda>p. None)\<rparr>, Toggle ''/b''),
      (\<lparr>disk = [''/a'' \<mapsto> 100, ''/b'' \<mapsto> 50],
        stat_error = (\<lambda>p. FileNotFoundError ''No such file or directory''),
        trash_error = (\<lambda>p. None)\<rparr>, BulkDelete)]
     \<lparr>scanned_files =
        [\<lparr>path = ''/a'', size_bytes = 100, ai_suggestion = None, color_code = None\<rparr>,
         \<lparr>path = ''/b'', size_bytes = 50, ai_suggestion = None, color_code = None\<rparr>],
      scan_completed = True, analysis_completed = True, selected_files = {''/a''},
      space_liberated = 7\<rparr>) \<and>
   space_liberated (run
     [(\<lparr>disk = [''/a'' \<mapsto> 100, ''/b'' \<mapsto> 50],
        stat_error = (\<lambda>p. FileNotFoundError ''No such file or directory''),
        trash_error = (\<lambda>p. None)\<rparr>, Toggle ''/b''),
      (\<lparr>disk = [''/a'' \<mapsto> 100, ''/b'' \<mapsto> 50],
        stat_error = (\<lambda>p. FileNotFoundError ''No such file or directory''),
        trash_error = (\<lambda>p. None)\<rparr>, BulkDelete)]
     \<lparr>scanned_files =
        [\<lparr>path = ''/a'', size_bytes = 100, ai_suggestion = None, color_code = None\<rparr>,
         \<lparr>path = ''/b'', size_bytes = 50, ai_suggestion = None, color_code = None\<rparr>],
      scan_completed = True, analysis_completed = True, selected_files = {''/a''},
      space_liberated = 7\<rparr>) = 157"
proof -
  let ?w = "\<lparr>disk = [''/a'' \<mapsto> 100, ''/b'' \<mapsto> 50],
             stat_error = (\<lambda>p. FileNotFoundError ''No such file or directory''),
             trash_error = (\<lambda>p. None)\<rparr>"
  let ?evs = "[(?w, Toggle ''/b''), (?w, BulkDelete)]"
  let ?s = "\<lparr>scanned_files =
        [\<lparr>path = ''/a'', size_bytes = 100, ai_suggestion = None, color_code = None\<rparr>,
         \<lparr>path = ''/b'', size_bytes = 50, ai_suggestion = None, color_code = None\<rparr>],
      scan_completed = True, analysis_completed = True, selected_files = {''/a''},
      space_liberated = 7\<rparr>"
  have h: "list_all (\<lambda>(w, ev). \<not> is_start_scan ev) ?evs" by simp
  have "list_all (\<lambda>(w, ev). \<not> is_start_scan ev) ?evs \<longrightarrow>
      space_liberated ?s \<le> space_liberated (run ?evs ?s)"
    by (rule conjunct2 [OF conjunct2 [OF C9_space_liberated_monotone
          [of BulkDelete ?s ?w "\<lparr>gemini_model = None, home_dir = [], tree = [],
             scan_path_input = [], num_files_to_show = 0, min_size_mb_filter = 0,
             yield_order = (\<lambda>k. 0)\<rparr>" ?evs]]])
  then have m: "space_liberated ?s \<le> space_liberated (run ?evs ?s)" using h by (rule mp)
  have v: "space_liberated (run ?evs ?s) = 157"
    by (simp add: toggle_def results_shown_def bulk_delete_button_def path_exists_def
        delete_file_to_trash_def Let_def)
  from h m v show ?thesis by (intro conjI)
qed

text \<open>
  C2: after a bulk trash operation every path that was moved to trash is absent from
  \<open>scanned_files\<close> and from \<open>selected_files\<close>, and every entry whose trash operation
  failed remains in \<open>scanned_files\<close>. The handler does the opposite on \<open>scanned_files\<close>:
  with \<open>/a\<close> and \<open>/b\<close> selected, \<open>/a\<close> moved to trash and the move of \<open>/b\<close> failing, it
  keeps \<open>/a\<close> and drops \<open>/b\<close>. The final filter of lines 457 to 461 removes the paths
  still in \<open>selected_files\<close>, and line 441 has already taken the moved paths out of that
  set.
\<close>

theorem C2_bulk_delete_failing_input:
  "map path (scanned_files (fst (step
       \<lparr>disk = [''/a'' \<mapsto> 100, ''/b'' \<mapsto> 50],
         stat_error = (\<lambda>p. FileNotFoundError ''No such file or directory''),
         trash_error = (\<lambda>p. if p = ''/b'' then Some (OtherError ''Operation not permitted'')
                             else None)\<rparr>
       BulkDelete
       \<lparr>scanned_files =
          [\<lparr>path = ''/a'', size_bytes = 100, ai_suggestion = None, color_code = None\<rparr>,
           \<lparr>path = ''/b'', size_bytes = 50, ai_suggestion = None, color_code = None\<rparr>],
        scan_completed = True, analysis_completed = True, selected_files = {''/a'', ''/b''},
        space_liberated = 0\<rparr>))) = [''/a''] \<and>
   selected_files (fst (step
       \<lparr>disk = [''/a'' \<mapsto> 100, ''/b'' \<mapsto> 50],
         stat_error = (\<lambda>p. FileNotFoundError ''No such file or directory''),
         trash_error = (\<lambda>p. if p = ''/b'' then Some (OtherError ''Operation not permitted'')
                             else None)\<rparr>
       BulkDelete
       \<lparr>scanned_files =
          [\<lparr>path = ''/a'', size_bytes = 100, ai_suggestion = None, color_code = None\<rparr>,
           \<lparr>path = ''/b'', size_bytes = 50, ai_suggestion = None, color_code = None\<rparr>],
        scan_completed = True, analysis_completed = True, selected_files = {''/a'', ''/b''},
        space_liberated = 0\<rparr>)) = {''/b''} \<and>
   disk (snd (step
       \<lparr>disk = [''/a'' \<mapsto> 100, ''/b'' \<mapsto> 50],
         stat_error = (\<lambda>p. FileNotFoundError ''No such file or directory''),
         trash_error = (\<lambda>p. if p = ''/b'' then Some (OtherError ''Operation not permitted'')
                             else None)\<rparr>
       BulkDelete
       \<lparr>scanned_files =
          [\<lparr>path = ''/a'', size_bytes = 100, ai_suggestion = None, color_code = None\<rparr>,
           \<lparr>path = ''/b'', size_bytes = 50, ai_suggestion = None, color_code = None\<rparr>],
        scan_completed = True, analysis_completed = True, selected_files = {''/a'', ''/b''},
        space_liberated = 0\<rparr>)) = [''/b'' \<mapsto> 50]"
  by (auto simp: results_shown_def bulk_delete_button_def path_exists_def
      delete_file_to_trash_def Let_def)

end
